theory Spec2Isabelle
  imports Main "HOL-Library.AList" "HOL-Library.Sublist"
begin

section \<open>Strings\<close>

text \<open>
  A Python \<open>str\<close> is modelled as a \<open>string\<close> holding the UTF-8 bytes of the text.
  The operations the program applies to strings (concatenation, equality, the test
  \<open>"HTTP 404" in s\<close>, \<open>startswith\<close> and \<open>split\<close> on ASCII patterns) give the same
  answers on the bytes as on the code points, because in UTF-8 an ASCII byte occurs
  only as the encoding of that ASCII character.
\<close>

text \<open>\<open>needle in hay\<close>.\<close>

fun str_in :: "string \<Rightarrow> string \<Rightarrow> bool" where
  "str_in needle [] = (needle = [])"
| "str_in needle (c # cs) = (prefix needle (c # cs) \<or> str_in needle cs)"

text \<open>\<open>str(n)\<close> for a non-negative integer: its decimal digits.\<close>

definition digit_char :: "nat \<Rightarrow> char" where
  "digit_char d = ''0123456789'' ! d"

function str_nat :: "nat \<Rightarrow> string" where
  "str_nat n = (if n < 10 then [digit_char n] else str_nat (n div 10) @ [digit_char (n mod 10)])"
  by pat_completeness auto
termination
  by (relation "measure id") auto

declare str_nat.simps [simp del]

section \<open>Values parsed from JSON\<close>

text \<open>
  \<open>json.load\<close> yields \<open>None\<close>, booleans, integers, floats, strings, lists and
  dictionaries. A float is kept as mantissa and exponent (or one of the special values
  the parser also accepts); the program only ever asks whether it is zero. A dictionary
  is an association list read with \<open>map_of\<close>.
\<close>

datatype pyfloat = Finite int int | Infinite bool | NaN

datatype json =
    JNull
  | JBool bool
  | JInt int
  | JFloat pyfloat
  | JStr string
  | JList "json list"
  | JDict "(string \<times> json) list"

text \<open>Python's truth value of an object, as \<open>if x\<close>, \<open>x or y\<close> and \<open>not x\<close> use it.\<close>

fun truthy :: "json \<Rightarrow> bool" where
  "truthy JNull = False"
| "truthy (JBool b) = b"
| "truthy (JInt i) = (i \<noteq> 0)"
| "truthy (JFloat f) = (case f of Finite m e \<Rightarrow> m \<noteq> 0 | Infinite s \<Rightarrow> True | NaN \<Rightarrow> True)"
| "truthy (JStr s) = (s \<noteq> [])"
| "truthy (JList xs) = (xs \<noteq> [])"
| "truthy (JDict kvs) = (kvs \<noteq> [])"

text \<open>\<open>d.get(k)\<close>: the value stored under \<open>k\<close>, \<open>None\<close> when the key is absent.\<close>

definition dict_get :: "(string \<times> json) list \<Rightarrow> string \<Rightarrow> json" where
  "dict_get d k = (case map_of d k of None \<Rightarrow> JNull | Some v \<Rightarrow> v)"

text \<open>\<open>a or b\<close>.\<close>

definition py_or :: "json \<Rightarrow> json \<Rightarrow> json" where
  "py_or a b = (if truthy a then a else b)"

section \<open>Exceptions\<close>

text \<open>
  \<open>RuntimeError\<close> carries its message, since the resolver inspects \<open>str(exc)\<close>.
  The other constructors are the exceptions the program can meet and never catches.
\<close>

datatype exn =
    RuntimeError string
  | AttributeError
  | FileExistsError
  | FileNotFoundError
  | NotADirectoryError
  | IsADirectoryError
  | OtherException string

section \<open>The file system\<close>

text \<open>
  A file system is a tree: a regular file with its bytes, or a directory with its
  named entries in listing order. A path is the list of its components below the root
  of the tree. Symbolic links, permissions and file metadata are not modelled; the
  archive extraction creates no links, and \<open>shutil.copy2\<close> is the copy of the bytes.
\<close>

type_synonym path = "string list"

datatype tree = File string | Dir "(string \<times> tree) list"

fun lookup :: "tree \<Rightarrow> path \<Rightarrow> tree option" where
  "lookup t [] = Some t"
| "lookup (File c) (n # p) = None"
| "lookup (Dir es) (n # p) = (case map_of es n of None \<Rightarrow> None | Some ch \<Rightarrow> lookup ch p)"

text \<open>What \<open>os.stat\<close> tells about a path: nothing there, a file (with its bytes), a directory.\<close>

datatype kind = KFile string | KDir

fun kind_of :: "tree \<Rightarrow> kind" where
  "kind_of (File c) = KFile c"
| "kind_of (Dir es) = KDir"

definition stat :: "tree \<Rightarrow> path \<Rightarrow> kind option" where
  "stat t p = map_option kind_of (lookup t p)"

text \<open>\<open>Path.exists()\<close> and \<open>Path.is_dir()\<close>.\<close>

definition path_exists :: "tree \<Rightarrow> path \<Rightarrow> bool" where
  "path_exists t p = (stat t p \<noteq> None)"

definition is_dir :: "tree \<Rightarrow> path \<Rightarrow> bool" where
  "is_dir t p = (stat t p = Some KDir)"

text \<open>
  \<open>Path.mkdir(parents=True, exist_ok=True)\<close>: the directory and its missing ancestors
  are created; an existing directory is left as it is. It raises \<open>FileExistsError\<close>
  when the path is an existing file and \<open>NotADirectoryError\<close> when an ancestor is one,
  and then nothing has been created.
\<close>

fun mkdir_p :: "tree \<Rightarrow> path \<Rightarrow> exn + tree" where
  "mkdir_p (File c) [] = Inl FileExistsError"
| "mkdir_p (Dir es) [] = Inr (Dir es)"
| "mkdir_p (File c) (n # p) = Inl NotADirectoryError"
| "mkdir_p (Dir es) (n # p) =
     (case mkdir_p (case map_of es n of None \<Rightarrow> Dir [] | Some ch \<Rightarrow> ch) p of
        Inl e \<Rightarrow> Inl e
      | Inr ch' \<Rightarrow> Inr (Dir (AList.update n ch' es)))"

text \<open>
  Opening a path for writing and storing bytes: the file is created in an existing
  directory, or an existing file is replaced.
\<close>

fun write_file :: "tree \<Rightarrow> path \<Rightarrow> string \<Rightarrow> exn + tree" where
  "write_file (File old) [] c = Inr (File c)"
| "write_file (Dir es) [] c = Inl IsADirectoryError"
| "write_file (File old) (n # p) c = Inl NotADirectoryError"
| "write_file (Dir es) (n # p) c =
     (case map_of es n of
        None \<Rightarrow> if p = [] then Inr (Dir (AList.update n (File c) es)) else Inl FileNotFoundError
      | Some ch \<Rightarrow>
          (case write_file ch p c of
             Inl e \<Rightarrow> Inl e
           | Inr ch' \<Rightarrow> Inr (Dir (AList.update n ch' es))))"

text \<open>\<open>Path.name\<close>: the last component, empty for the root.\<close>

definition basename :: "path \<Rightarrow> string" where
  "basename p = (case rev p of [] \<Rightarrow> [] | n # r \<Rightarrow> n)"

text \<open>
  \<open>shutil.copy2(source, target)\<close> for a source file named \<open>name\<close> holding \<open>content\<close>:
  when the target is a directory the file goes into it under the source's name.
\<close>

definition copy2 :: "tree \<Rightarrow> string \<Rightarrow> string \<Rightarrow> path \<Rightarrow> exn + tree" where
  "copy2 fs name content target =
     write_file fs (if is_dir fs target then target @ [name] else target) content"

text \<open>
  \<open>root.rglob("*")\<close>: every entry below \<open>root\<close> with its path relative to \<open>root\<close>, in
  the order of CPython's pathlib (up to 3.12): the entries of a directory in listing
  order, then the same for each of its subdirectories in turn. On a root that is not
  a directory it yields nothing.
\<close>

fun walk :: "tree \<Rightarrow> (path \<times> tree) list" where
  "walk (File c) = []"
| "walk (Dir es) =
     map (\<lambda>e. ([fst e], snd e)) es
     @ concat (map (\<lambda>e. map (\<lambda>x. (fst e # fst x, snd x)) (walk (snd e))) es)"

text \<open>No directory lists a name twice.\<close>

fun wf_tree :: "tree \<Rightarrow> bool" where
  "wf_tree (File c) = True"
| "wf_tree (Dir es) = (distinct (map fst es) \<and> (\<forall>e \<in> set es. wf_tree (snd e)))"

section \<open>The remote API\<close>

text \<open>
  What \<open>urllib.request.urlopen\<close> followed by \<open>json.load\<close> does for a URL:
  \<^item> \<open>Response j\<close>: the request succeeds and the body parses to \<open>j\<close>;
  \<^item> \<open>HTTPError code body reason\<close>: \<open>urllib.error.HTTPError\<close> with status \<open>code\<close>;
    \<open>body\<close> is the decoded result of \<open>error.read()\<close>, \<open>None\<close> when reading raises, and
    \<open>reason\<close> is \<open>error.reason\<close>;
  \<^item> \<open>URLError reason\<close>: \<open>urllib.error.URLError\<close>, with \<open>str(exc.reason)\<close>;
  \<^item> \<open>Failure name\<close>: any other exception (a body that is not JSON, a timeout while
    reading), which \<open>_api_get\<close> does not catch.
\<close>

datatype http_result =
    Response json
  | HTTPError nat "string option" string
  | URLError string
  | Failure string

text \<open>
  What the download of the archive gives (\<open>urlopen\<close> on the archive URL and the copy
  of the response into \<open>source.zip\<close>):
  \<^item> \<open>Fetched raw members\<close>: the bytes \<open>raw\<close> arrive; \<open>members\<close> is what \<open>zipfile.ZipFile\<close>
    finds in them, \<open>None\<close> when they are no zip archive, or else the members in archive
    order, each with its name and its bytes;
  \<^item> \<open>FetchHTTPError code body\<close>: \<open>HTTPError\<close>; \<open>body\<close> is the decoded \<open>exc.read()\<close>,
    \<open>None\<close> when reading raises;
  \<^item> \<open>FetchURLError reason\<close>: \<open>URLError\<close>;
  \<^item> \<open>FetchFailure name\<close>: any other exception.
\<close>

datatype fetch_result =
    Fetched string "(string \<times> string) list option"
  | FetchHTTPError nat "string option"
  | FetchURLError string
  | FetchFailure string

text \<open>
  The world outside the program: the answer of the API to each URL; \<open>fmt\<close>, the text
  an f-string puts in for a parsed value (Python's \<open>str()\<close>; on a string it is the
  string itself); the outcome of downloading from an archive URL (the value of
  \<open>zipball_url\<close>, which need not be a string); and the directory in which
  \<open>tempfile\<close> creates the temporary directory of the run: the name it gives the new
  directory and the entries that are already there.
\<close>

record world =
  api :: "string \<Rightarrow> http_result"
  fmt :: "json \<Rightarrow> string"
  fetch :: "json \<Rightarrow> fetch_result"
  tmp_name :: string
  tmp_siblings :: "(string \<times> tree) list"

definition REPO :: string where
  "REPO = ''AmethystDev-Labs/LazyFox''"

definition API_BASE :: string where
  "API_BASE = ''https://api.github.com/repos/'' @ REPO"

definition REPO_URL :: string where
  "REPO_URL = ''https://github.com/'' @ REPO"

definition read_error :: "string option \<Rightarrow> string \<Rightarrow> string" where
  "read_error body reason = (case body of Some b \<Rightarrow> b | None \<Rightarrow> reason)"

text \<open>
  \<open>_api_get\<close>. The second component is the list of URLs requested so far, extended by
  this request: it records every network call of the resolver.
\<close>

definition api_get :: "world \<Rightarrow> string \<Rightarrow> string list \<Rightarrow> (exn + json) \<times> string list" where
  "api_get w url log =
     (case api w url of
        Response j \<Rightarrow> Inr j
      | HTTPError code body reason \<Rightarrow>
          Inl (RuntimeError (''HTTP '' @ str_nat code @ '': '' @ read_error body reason))
      | URLError reason \<Rightarrow> Inl (RuntimeError reason)
      | Failure name \<Rightarrow> Inl (OtherException name),
      log @ [url])"

section \<open>The source descriptor and the resolver\<close>

record source =
  source_type :: string
  tag_name :: json
  zipball_url :: json

definition msg_repo_malformed :: string where
  "msg_repo_malformed =
     [CHR 0xE4, CHR 0xBB, CHR 0x93, CHR 0xE5, CHR 0xBA, CHR 0x93, CHR 0xE4, CHR 0xBF, CHR 0xA1,
      CHR 0xE6, CHR 0x81, CHR 0xAF, CHR 0xE6, CHR 0xA0, CHR 0xBC, CHR 0xE5, CHR 0xBC, CHR 0x8F,
      CHR 0xE5, CHR 0xBC, CHR 0x82, CHR 0xE5, CHR 0xB8, CHR 0xB8, CHR 0xE3, CHR 0x80, CHR 0x82]"

definition msg_no_default_branch :: string where
  "msg_no_default_branch =
     [CHR 0xE4, CHR 0xBB, CHR 0x93, CHR 0xE5, CHR 0xBA, CHR 0x93, CHR 0xE6, CHR 0xB2, CHR 0xA1,
      CHR 0xE6, CHR 0x9C, CHR 0x89, CHR 0xE9, CHR 0xBB, CHR 0x98, CHR 0xE8, CHR 0xAE, CHR 0xA4,
      CHR 0xE5, CHR 0x88, CHR 0x86, CHR 0xE6, CHR 0x94, CHR 0xAF, CHR 0xE4, CHR 0xBF, CHR 0xA1,
      CHR 0xE6, CHR 0x81, CHR 0xAF, CHR 0xE3, CHR 0x80, CHR 0x82]"

text \<open>The message of the final failure of an explicit version, with the version put in.\<close>

definition msg_version_not_found :: "string \<Rightarrow> string" where
  "msg_version_not_found version =
     [CHR 0xE6, CHR 0x9C, CHR 0xAA, CHR 0xE6, CHR 0x89, CHR 0xBE, CHR 0xE5, CHR 0x88, CHR 0xB0,
      CHR 0xE7, CHR 0x89, CHR 0x88, CHR 0xE6, CHR 0x9C, CHR 0xAC] @ '' '' @ [CHR 0x60]
     @ version
     @ [CHR 0x60] @ '' '' @ [CHR 0xE7, CHR 0x9A, CHR 0x84] @ '' release ''
     @ [CHR 0xE6, CHR 0x88, CHR 0x96] @ '' tag'' @ [CHR 0xE3, CHR 0x80, CHR 0x82]"

text \<open>\<open>_default_branch_source\<close>.\<close>

definition default_branch_source :: "world \<Rightarrow> string list \<Rightarrow> (exn + source) \<times> string list" where
  "default_branch_source w log =
     (case api_get w API_BASE log of
        (Inl e, log1) \<Rightarrow> (Inl e, log1)
      | (Inr repo, log1) \<Rightarrow>
          (case repo of
             JDict d \<Rightarrow>
               (let branch = dict_get d ''default_branch'' in
                if \<not> truthy branch then (Inl (RuntimeError msg_no_default_branch), log1)
                else
                  (Inr \<lparr>source_type = ''default branch ('' @ fmt w branch @ '')'',
                        tag_name = branch,
                        zipball_url =
                          JStr (REPO_URL @ ''/archive/refs/heads/'' @ fmt w branch @ ''.zip'')\<rparr>,
                   log1))
           | _ \<Rightarrow> (Inl (RuntimeError msg_repo_malformed), log1)))"

text \<open>
  The \<open>try\<close> block around a release lookup, which \<open>_resolve_source\<close> has twice (with
  the label and the default tag name as the only differences). \<open>Some\<close> is the way the
  block leaves the function: a returned descriptor or a re-raised exception. \<open>None\<close>
  means that control falls through to the statements after the block.
\<close>

definition release_attempt :: "string \<Rightarrow> json \<Rightarrow> exn + json \<Rightarrow> (exn + source) option" where
  "release_attempt label default_tag r =
     (case r of
        Inr release \<Rightarrow>
          (case release of
             JDict d \<Rightarrow>
               if truthy (dict_get d ''zipball_url'')
               then Some (Inr \<lparr>source_type = label,
                               tag_name = py_or (dict_get d ''tag_name'') default_tag,
                               zipball_url = dict_get d ''zipball_url''\<rparr>)
               else None
           | _ \<Rightarrow> None)
      | Inl (RuntimeError m) \<Rightarrow>
          if \<not> str_in ''HTTP 404'' m then Some (Inl (RuntimeError m)) else None
      | Inl e \<Rightarrow> Some (Inl e))"

text \<open>
  The loop over the page of tags. An entry that is not a dictionary has no \<open>get\<close>:
  the loop raises \<open>AttributeError\<close> when it reaches one.
\<close>

fun scan_tags :: "string \<Rightarrow> json list \<Rightarrow> exn + source option" where
  "scan_tags version [] = Inr None"
| "scan_tags version (item # rest) =
     (case item of
        JDict d \<Rightarrow>
          if dict_get d ''name'' = JStr version
          then Inr (Some \<lparr>source_type = ''git tag'', tag_name = JStr version,
                          zipball_url = dict_get d ''zipball_url''\<rparr>)
          else scan_tags version rest
      | _ \<Rightarrow> Inl AttributeError)"

definition latest_url :: string where
  "latest_url = API_BASE @ ''/releases/latest''"

definition latest_tag_url :: string where
  "latest_tag_url = API_BASE @ ''/tags?per_page=1''"

definition release_url :: "string \<Rightarrow> string" where
  "release_url version = API_BASE @ ''/releases/tags/'' @ version"

definition tags_page_url :: string where
  "tags_page_url = API_BASE @ ''/tags?per_page=100''"

text \<open>\<open>_resolve_source\<close>.\<close>

definition resolve_source :: "world \<Rightarrow> string \<Rightarrow> string list \<Rightarrow> (exn + source) \<times> string list" where
  "resolve_source w version log =
     (if version = ''latest'' then
        (case api_get w latest_url log of
           (r, log1) \<Rightarrow>
             (case release_attempt ''latest release'' (JStr ''latest'') r of
                Some outcome \<Rightarrow> (outcome, log1)
              | None \<Rightarrow>
                  (case api_get w latest_tag_url log1 of
                     (Inl e, log2) \<Rightarrow> (Inl e, log2)
                   | (Inr tags, log2) \<Rightarrow>
                       (case tags of
                          JList (first # rest) \<Rightarrow>
                            (case first of
                               JDict d \<Rightarrow>
                                 (Inr \<lparr>source_type = ''latest tag'',
                                       tag_name = py_or (dict_get d ''name'') (JStr ''latest-tag''),
                                       zipball_url = dict_get d ''zipball_url''\<rparr>,
                                  log2)
                             | _ \<Rightarrow> (Inl AttributeError, log2))
                        | _ \<Rightarrow> default_branch_source w log2))))
      else
        (case api_get w (release_url version) log of
           (r, log1) \<Rightarrow>
             (case release_attempt ''release tag'' (JStr version) r of
                Some outcome \<Rightarrow> (outcome, log1)
              | None \<Rightarrow>
                  (case api_get w tags_page_url log1 of
                     (Inl e, log2) \<Rightarrow> (Inl e, log2)
                   | (Inr tags, log2) \<Rightarrow>
                       (case (case tags of JList items \<Rightarrow> scan_tags version items
                                         | _ \<Rightarrow> Inr None) of
                          Inl e \<Rightarrow> (Inl e, log2)
                        | Inr (Some src) \<Rightarrow> (Inr src, log2)
                        | Inr None \<Rightarrow>
                            (Inl (RuntimeError (msg_version_not_found version)), log2))))))"

section \<open>Copying a tree\<close>

text \<open>\<open>str(path)\<close> of a relative path, and \<open>sep.join(items)\<close>.\<close>

fun join :: "string \<Rightarrow> string list \<Rightarrow> string" where
  "join sep [] = []"
| "join sep [x] = x"
| "join sep (x # y # ys) = x @ sep @ join sep (y # ys)"

definition str_path :: "path \<Rightarrow> string" where
  "str_path p = (if p = [] then ''.'' else join ''/'' p)"

definition msg_conflict_head :: string where
  "msg_conflict_head =
     [CHR 0xE7, CHR 0x9B, CHR 0xAE, CHR 0xE6, CHR 0xA0, CHR 0x87, CHR 0xE7, CHR 0x9B, CHR 0xAE,
      CHR 0xE5, CHR 0xBD, CHR 0x95, CHR 0xE5, CHR 0xAD, CHR 0x98, CHR 0xE5, CHR 0x9C, CHR 0xA8,
      CHR 0xE5, CHR 0x90, CHR 0x8C, CHR 0xE5, CHR 0x90, CHR 0x8D, CHR 0xE6, CHR 0x96, CHR 0x87,
      CHR 0xE4, CHR 0xBB, CHR 0xB6, CHR 0xEF, CHR 0xBC, CHR 0x8C, CHR 0xE5, CHR 0xB7, CHR 0xB2,
      CHR 0xE5, CHR 0x81, CHR 0x9C, CHR 0xE6, CHR 0xAD, CHR 0xA2, CHR 0xE5, CHR 0x86, CHR 0x99,
      CHR 0xE5, CHR 0x85, CHR 0xA5, CHR 0xE3, CHR 0x80, CHR 0x82, CHR 0xE5, CHR 0x8F, CHR 0xAF,
      CHR 0xE4, CHR 0xBD, CHR 0xBF, CHR 0xE7, CHR 0x94, CHR 0xA8] @ '' --force ''
     @ [CHR 0xE8, CHR 0xA6, CHR 0x86, CHR 0xE7, CHR 0x9B, CHR 0x96, CHR 0xE3, CHR 0x80, CHR 0x82,
        CHR 0x0A, CHR 0xE5, CHR 0x86, CHR 0xB2, CHR 0xE7, CHR 0xAA, CHR 0x81, CHR 0xE6, CHR 0x96,
        CHR 0x87, CHR 0xE4, CHR 0xBB, CHR 0xB6, CHR 0xE7, CHR 0xA4, CHR 0xBA, CHR 0xE4, CHR 0xBE,
        CHR 0x8B] @ '':'' @ [CHR 0x0A]"

definition msg_more_pre :: string where
  "msg_more_pre = [CHR 0x0A] @ ''  ... '' @ [CHR 0xE8, CHR 0xBF, CHR 0x98, CHR 0xE6, CHR 0x9C, CHR 0x89] @ '' ''"

definition msg_more_post :: string where
  "msg_more_post =
     '' '' @ [CHR 0xE4, CHR 0xB8, CHR 0xAA, CHR 0xE5, CHR 0x86, CHR 0xB2, CHR 0xE7, CHR 0xAA, CHR 0x81,
              CHR 0xE6, CHR 0x96, CHR 0x87, CHR 0xE4, CHR 0xBB, CHR 0xB6]"

text \<open>The two parts of the report that \<open>_copy_tree\<close> builds from the conflict list
  (its variables \<open>preview\<close> and \<open>more\<close>).\<close>

definition preview :: "path list \<Rightarrow> string" where
  "preview conflicts = join [CHR 0x0A] (map (\<lambda>item. ''  - '' @ str_path item) (take 20 conflicts))"

definition more_text :: "path list \<Rightarrow> string" where
  "more_text conflicts =
     (if length conflicts \<le> 20 then []
      else msg_more_pre @ str_nat (length conflicts - 20) @ msg_more_post)"

definition conflict_message :: "path list \<Rightarrow> string" where
  "conflict_message conflicts = msg_conflict_head @ preview conflicts @ more_text conflicts"

text \<open>
  The loop of \<open>_copy_tree\<close> over the entries the walk yields, each with its path
  relative to the source root. The state is the destination file system and the
  conflict list. An exception ends the loop; what was written before it stays.
\<close>

fun copy_entries ::
  "path \<Rightarrow> bool \<Rightarrow> (path \<times> tree) list \<Rightarrow> tree \<Rightarrow> path list \<Rightarrow> (exn + path list) \<times> tree" where
  "copy_entries dest force [] fs conflicts = (Inr conflicts, fs)"
| "copy_entries dest force ((relative, source) # rest) fs conflicts =
     (let target = dest @ relative in
      case source of
        Dir es \<Rightarrow>
          (case mkdir_p fs target of
             Inl e \<Rightarrow> (Inl e, fs)
           | Inr fs1 \<Rightarrow> copy_entries dest force rest fs1 conflicts)
      | File content \<Rightarrow>
          if path_exists fs target \<and> \<not> force
          then copy_entries dest force rest fs (conflicts @ [relative])
          else
            (case mkdir_p fs (butlast target) of
               Inl e \<Rightarrow> (Inl e, fs)
             | Inr fs1 \<Rightarrow>
                 (case copy2 fs1 (basename relative) content target of
                    Inl e \<Rightarrow> (Inl e, fs1)
                  | Inr fs2 \<Rightarrow> copy_entries dest force rest fs2 conflicts)))"

text \<open>
  \<open>_copy_tree\<close>, for the tree found at the source root. The source lies in the
  temporary directory of this run, apart from the destination, so reading it is not
  affected by the writes.
\<close>

definition copy_tree :: "tree \<Rightarrow> path \<Rightarrow> bool \<Rightarrow> tree \<Rightarrow> (exn + unit) \<times> tree" where
  "copy_tree source_root dest force fs =
     (case copy_entries dest force (walk source_root) fs [] of
        (Inl e, fs') \<Rightarrow> (Inl e, fs')
      | (Inr conflicts, fs') \<Rightarrow>
          if conflicts \<noteq> []
          then (Inl (RuntimeError (conflict_message conflicts)), fs')
          else (Inr (), fs'))"

section \<open>Download and extraction\<close>

definition msg_download_http :: string where
  "msg_download_http =
     [CHR 0xE4, CHR 0xB8, CHR 0x8B, CHR 0xE8, CHR 0xBD, CHR 0xBD, CHR 0xE5, CHR 0xA4, CHR 0xB1,
      CHR 0xE8, CHR 0xB4, CHR 0xA5] @ '' HTTP ''"

definition msg_download_failed :: string where
  "msg_download_failed =
     [CHR 0xE4, CHR 0xB8, CHR 0x8B, CHR 0xE8, CHR 0xBD, CHR 0xBD, CHR 0xE5, CHR 0xA4, CHR 0xB1,
      CHR 0xE8, CHR 0xB4, CHR 0xA5] @ '': ''"

definition msg_archive_empty :: string where
  "msg_archive_empty =
     [CHR 0xE5, CHR 0x8E, CHR 0x8B, CHR 0xE7, CHR 0xBC, CHR 0xA9, CHR 0xE5, CHR 0x8C, CHR 0x85,
      CHR 0xE4, CHR 0xB8, CHR 0xBA, CHR 0xE7, CHR 0xA9, CHR 0xBA, CHR 0xE3, CHR 0x80, CHR 0x82]"

definition msg_no_source_dir :: string where
  "msg_no_source_dir =
     [CHR 0xE8, CHR 0xA7, CHR 0xA3, CHR 0xE5, CHR 0x8E, CHR 0x8B, CHR 0xE5, CHR 0x90, CHR 0x8E,
      CHR 0xE6, CHR 0x9C, CHR 0xAA, CHR 0xE6, CHR 0x89, CHR 0xBE, CHR 0xE5, CHR 0x88, CHR 0xB0,
      CHR 0xE6, CHR 0xBA, CHR 0x90, CHR 0xE7, CHR 0xA0, CHR 0x81, CHR 0xE7, CHR 0x9B, CHR 0xAE,
      CHR 0xE5, CHR 0xBD, CHR 0x95, CHR 0xE3, CHR 0x80, CHR 0x82]"

text \<open>
  \<open>_download_file\<close>: the bytes that end up in \<open>source.zip\<close>, with what the archive
  reader will find in them.
\<close>

definition download_file :: "world \<Rightarrow> json \<Rightarrow> exn + string \<times> (string \<times> string) list option" where
  "download_file w url =
     (case fetch w url of
        Fetched raw members \<Rightarrow> Inr (raw, members)
      | FetchHTTPError code body \<Rightarrow>
          (case body of
             Some b \<Rightarrow> Inl (RuntimeError (msg_download_http @ str_nat code @ '': '' @ b))
           | None \<Rightarrow> Inl (OtherException ''read''))
      | FetchURLError reason \<Rightarrow> Inl (RuntimeError (msg_download_failed @ reason))
      | FetchFailure name \<Rightarrow> Inl (OtherException name))"

text \<open>\<open>name.split("/", 1)[0]\<close>: the text before the first slash.\<close>

definition first_component :: "string \<Rightarrow> string" where
  "first_component name = takeWhile (\<lambda>c. c \<noteq> CHR ''/'') name"

text \<open>\<open>_detect_root_folder\<close>, on \<open>archive.namelist()\<close>.\<close>

definition detect_root_folder :: "string list \<Rightarrow> exn + string" where
  "detect_root_folder namelist =
     (case filter (\<lambda>name. name \<noteq> [] \<and> \<not> prefix ''__MACOSX/'' name) namelist of
        [] \<Rightarrow> Inl (RuntimeError msg_archive_empty)
      | first # others \<Rightarrow> Inr (first_component first))"

text \<open>\<open>s.split(sep)\<close> for a separator of one character.\<close>

fun split_on :: "char \<Rightarrow> string \<Rightarrow> string list" where
  "split_on sep [] = [[]]"
| "split_on sep (x # xs) =
     (if x = sep then [] # split_on sep xs
      else (case split_on sep xs of [] \<Rightarrow> [[x]] | w # ws \<Rightarrow> (x # w) # ws))"

text \<open>
  \<open>ZipFile.extractall\<close>, member by member as \<open>zipfile\<close> does it: the member's name
  loses its empty, \<open>.\<close> and \<open>..\<close> components, the directories above the target are
  created when they are missing, and then a name ending in a slash makes a directory
  and any other name a file with the member's bytes. The members are taken in the
  order of the name list; where a name occurs twice, both turns extract the member
  stored last under it.
\<close>

definition arcname :: "string \<Rightarrow> path" where
  "arcname name =
     filter (\<lambda>x. x \<noteq> [] \<and> x \<noteq> ''.'' \<and> x \<noteq> ''..'') (split_on (CHR ''/'') name)"

definition member_is_dir :: "string \<Rightarrow> bool" where
  "member_is_dir name = (name \<noteq> [] \<and> last name = CHR ''/'')"

definition member_data :: "(string \<times> string) list \<Rightarrow> string \<Rightarrow> string" where
  "member_data entries name = (case map_of (rev entries) name of Some d \<Rightarrow> d | None \<Rightarrow> [])"

definition extract_member :: "tree \<Rightarrow> string \<Rightarrow> string \<Rightarrow> exn + tree" where
  "extract_member staging name data =
     (let target = arcname name in
      if target = [] \<and> \<not> member_is_dir name then Inl (OtherException ''ValueError'')
      else
        (case (if path_exists staging (butlast target) then Inr staging
               else mkdir_p staging (butlast target)) of
           Inl e \<Rightarrow> Inl e
         | Inr st \<Rightarrow>
             if member_is_dir name
             then (if is_dir st target then Inr st else mkdir_p st target)
             else write_file st target data))"

fun extract_all :: "(string \<times> string) list \<Rightarrow> string list \<Rightarrow> tree \<Rightarrow> exn + tree" where
  "extract_all entries [] staging = Inr staging"
| "extract_all entries (name # names) staging =
     (case extract_member staging name (member_data entries name) of
        Inl e \<Rightarrow> Inl e
      | Inr st \<Rightarrow> extract_all entries names st)"

text \<open>
  \<open>Path(tmp_dir) / root_name\<close>, looked up after the extraction: an empty name or \<open>.\<close>
  is the temporary directory itself, \<open>..\<close> is the directory that holds it, any other
  name is the entry of that name in the temporary directory. \<open>None\<close>: nothing exists
  there.
\<close>

definition source_root :: "world \<Rightarrow> tree \<Rightarrow> string \<Rightarrow> tree option" where
  "source_root w staging root_name =
     (if root_name = [] \<or> root_name = ''.'' then Some staging
      else if root_name = ''..''
      then Some (Dir (AList.update (tmp_name w) staging (tmp_siblings w)))
      else lookup staging [root_name])"

text \<open>
  Everything \<open>_download_and_extract\<close> does before the copy, in the temporary directory
  of the run: download, root detection, extraction, and the check that the source root
  exists. The result is the tree found at the source root.
\<close>

definition stage :: "world \<Rightarrow> json \<Rightarrow> exn + tree" where
  "stage w zip_url =
     (case download_file w zip_url of
        Inl e \<Rightarrow> Inl e
      | Inr (raw, members) \<Rightarrow>
          (case members of
             None \<Rightarrow> Inl (OtherException ''BadZipFile'')
           | Some entries \<Rightarrow>
               (case detect_root_folder (map fst entries) of
                  Inl e \<Rightarrow> Inl e
                | Inr root_name \<Rightarrow>
                    (case extract_all entries (map fst entries)
                            (Dir [(''source.zip'', File raw)]) of
                       Inl e \<Rightarrow> Inl e
                     | Inr staging \<Rightarrow>
                         (case source_root w staging root_name of
                            None \<Rightarrow> Inl (RuntimeError msg_no_source_dir)
                          | Some root \<Rightarrow> Inr root)))))"

section \<open>The command\<close>

text \<open>
  The state the command changes: the file system that holds the destination, the API
  URLs requested, the archive URLs a download was started from, and the lines printed.
  The temporary directory is not part of \<open>files\<close>: it is new, lies apart from the
  destination, and is removed when \<open>_download_and_extract\<close> ends.
\<close>

datatype out_line =
    ResolveFailed string
  | MissingZipball
  | Repo string
  | Origin string
  | Version json
  | Target path
  | InitFailed string
  | Done

record state =
  files :: tree
  requests :: "string list"
  downloads :: "json list"
  printed :: "out_line list"

text \<open>The parsed arguments; \<open>arg_dest\<close> is \<open>Path(args.dest).resolve()\<close>.\<close>

record args =
  arg_version :: "string option"
  arg_dest :: path
  arg_force :: bool

text \<open>\<open>_download_and_extract\<close>.\<close>

definition download_and_extract ::
  "world \<Rightarrow> json \<Rightarrow> path \<Rightarrow> bool \<Rightarrow> state \<Rightarrow> (exn + unit) \<times> state" where
  "download_and_extract w zip_url dest force st =
     (let st1 = st\<lparr>downloads := downloads st @ [zip_url]\<rparr> in
      case stage w zip_url of
        Inl e \<Rightarrow> (Inl e, st1)
      | Inr root \<Rightarrow>
          (case copy_tree root dest force (files st1) of
             (r, fs') \<Rightarrow> (r, st1\<lparr>files := fs'\<rparr>)))"

text \<open>\<open>args.version or "latest"\<close>.\<close>

definition requested_version :: "args \<Rightarrow> string" where
  "requested_version a =
     (case arg_version a of None \<Rightarrow> ''latest'' | Some v \<Rightarrow> if v = [] then ''latest'' else v)"

text \<open>
  \<open>run\<close>. \<open>Inr code\<close> is the exit code it returns; \<open>Inl e\<close> is an exception that
  leaves it, which happens to every exception but \<open>RuntimeError\<close>.
\<close>

definition run :: "args \<Rightarrow> world \<Rightarrow> state \<Rightarrow> (exn + int) \<times> state" where
  "run a w st =
     (let version = requested_version a;
          dest = arg_dest a
      in case mkdir_p (files st) dest of
           Inl e \<Rightarrow> (Inl e, st)
         | Inr fs1 \<Rightarrow>
             (let st1 = st\<lparr>files := fs1\<rparr> in
              case resolve_source w version (requests st1) of
                (Inl (RuntimeError m), log) \<Rightarrow>
                  (Inr 1, st1\<lparr>requests := log, printed := printed st1 @ [ResolveFailed m]\<rparr>)
              | (Inl e, log) \<Rightarrow> (Inl e, st1\<lparr>requests := log\<rparr>)
              | (Inr src, log) \<Rightarrow>
                  (let st2 = st1\<lparr>requests := log\<rparr>;
                       tag = py_or (tag_name src) (JStr version);
                       zip_url = zipball_url src
                   in if \<not> truthy zip_url
                      then (Inr 1, st2\<lparr>printed := printed st2 @ [MissingZipball]\<rparr>)
                      else
                        (let st3 = st2\<lparr>printed := printed st2 @
                                     [Repo REPO_URL, Origin (source_type src), Version tag,
                                      Target dest]\<rparr>
                         in case download_and_extract w zip_url dest (arg_force a) st3 of
                              (Inl (RuntimeError m), st4) \<Rightarrow>
                                (Inr 1, st4\<lparr>printed := printed st4 @ [InitFailed m]\<rparr>)
                            | (Inl e, st4) \<Rightarrow> (Inl e, st4)
                            | (Inr u, st4) \<Rightarrow>
                                (Inr 0, st4\<lparr>printed := printed st4 @ [Done]\<rparr>)))))"

section \<open>Vocabulary for the copy\<close>

fun is_file :: "tree \<Rightarrow> bool" where
  "is_file (File c) = True"
| "is_file (Dir es) = False"

text \<open>
  The entries that \<open>_copy_tree\<close> records as conflicts: files whose target exists
  while \<open>force\<close> is off.
\<close>

definition conflicting :: "path \<Rightarrow> bool \<Rightarrow> tree \<Rightarrow> path \<times> tree \<Rightarrow> bool" where
  "conflicting dest force fs e = (is_file (snd e) \<and> path_exists fs (dest @ fst e) \<and> \<not> force)"

text \<open>
  A list of entries as a walk yields it: no path twice, no empty path, and nothing
  below a file.
\<close>

definition coherent :: "(path \<times> tree) list \<Rightarrow> bool" where
  "coherent L =
     (distinct (map fst L)
      \<and> (\<forall>e \<in> set L. fst e \<noteq> []
            \<and> (\<forall>e' \<in> set L. is_file (snd e) \<longrightarrow> \<not> strict_prefix (fst e) (fst e'))))"

text \<open>
  The destination does not clash in kind with the entries still to be copied: the
  destination is a directory, no file of the destination sits where an entry needs a
  directory (at the target of a directory entry or above any target), and, when
  \<open>force\<close> is on, no directory of the destination sits at the target of a file entry.
\<close>

definition clear :: "path \<Rightarrow> bool \<Rightarrow> tree \<Rightarrow> (path \<times> tree) list \<Rightarrow> bool" where
  "clear dest force fs L =
     (stat fs dest = Some KDir
      \<and> (\<forall>e \<in> set L. \<forall>q c. prefix q (fst e) \<longrightarrow> (q \<noteq> fst e \<or> \<not> is_file (snd e)) \<longrightarrow>
            stat fs (dest @ q) \<noteq> Some (KFile c))
      \<and> (force \<longrightarrow> (\<forall>e \<in> set L. is_file (snd e) \<longrightarrow> stat fs (dest @ fst e) \<noteq> Some KDir)))"

section \<open>Example worlds\<close>

text \<open>
  A world given by a table from URLs to answers; every other URL is unreachable.
  Its \<open>fmt\<close> is \<open>str()\<close> on strings, which is all the examples format; no archive
  can be downloaded and the temporary directory is the first in an empty place.
\<close>

definition world_of :: "(string \<times> http_result) list \<Rightarrow> world" where
  "world_of table =
     \<lparr>api = (\<lambda>url. case map_of table url of Some r \<Rightarrow> r
                                             | None \<Rightarrow> URLError ''unreachable''),
      fmt = (\<lambda>j. case j of JStr s \<Rightarrow> s | _ \<Rightarrow> ''?''),
      fetch = (\<lambda>url. FetchURLError ''unreachable''),
      tmp_name = ''lazyfox-init-0'',
      tmp_siblings = []\<rparr>"

definition release_v1 :: json where
  "release_v1 =
     JDict [(''tag_name'', JStr ''v1.0''), (''zipball_url'', JStr ''https://example.org/v1.0.zip'')]"

definition tag_v09 :: json where
  "tag_v09 =
     JDict [(''name'', JStr ''v0.9''), (''zipball_url'', JStr ''https://example.org/v0.9.zip'')]"

definition not_found :: http_result where
  "not_found = HTTPError 404 (Some ''Not Found'') ''Not Found''"

definition world_release :: world where
  "world_release = world_of [(latest_url, Response release_v1)]"

definition world_tag :: world where
  "world_tag =
     world_of [(latest_url, not_found), (latest_tag_url, Response (JList [tag_v09]))]"

definition world_branch :: world where
  "world_branch =
     world_of [(latest_url, not_found), (latest_tag_url, Response (JList [])),
               (API_BASE, Response (JDict [(''default_branch'', JStr ''main'')]))]"

definition world_no_v9 :: world where
  "world_no_v9 =
     world_of [(release_url ''v9'', not_found), (tags_page_url, Response (JList [tag_v09]))]"

text \<open>
  A server error whose body happens to quote the text \<open>HTTP 404\<close>, on either release
  endpoint, in front of a healthy tag listing.
\<close>

definition server_error :: http_result where
  "server_error = HTTPError 500 (Some ''upstream said HTTP 404'') ''Internal Server Error''"

definition world_500 :: world where
  "world_500 =
     world_of [(latest_url, server_error), (release_url ''v0.9'', server_error),
               (latest_tag_url, Response (JList [tag_v09])),
               (tags_page_url, Response (JList [tag_v09]))]"

section \<open>Example trees\<close>

definition dest_proj :: path where
  "dest_proj = [''home'', ''proj'']"

text \<open>A source root with a file and a directory that holds a file.\<close>

definition source_a :: tree where
  "source_a =
     Dir [(''README.md'', File ''readme''),
          (''docs'', Dir [(''guide.md'', File ''guide'')])]"

text \<open>A destination with a file of its own that no source entry touches.\<close>

definition fs_fresh :: tree where
  "fs_fresh = Dir [(''home'', Dir [(''proj'', Dir [(''notes.txt'', File ''mine'')])])]"

section \<open>Example runs\<close>

definition state_of :: "tree \<Rightarrow> state" where
  "state_of fs = \<lparr>files = fs, requests = [], downloads = [], printed = []\<rparr>"

definition args_latest :: "bool \<Rightarrow> args" where
  "args_latest force = \<lparr>arg_version = None, arg_dest = dest_proj, arg_force = force\<rparr>"

text \<open>A tag entry without an archive link, behind a release endpoint that answers not-found.\<close>

definition world_tag_without_zipball :: world where
  "world_tag_without_zipball =
     world_of [(latest_url, not_found),
               (latest_tag_url, Response (JList [JDict [(''name'', JStr ''v0.9'')]]))]"

text \<open>A file system in which \<open>home\<close> is a regular file, so that \<open>home/proj\<close> cannot be made.\<close>

definition fs_home_is_file :: tree where
  "fs_home_is_file = Dir [(''home'', File ''x'')]"

definition args_v9 :: args where
  "args_v9 = \<lparr>arg_version = Some ''v9'', arg_dest = dest_proj, arg_force = False\<rparr>"

text \<open>
  An archive as the hosting service builds it: one wrapper folder, named after the
  repository and the reference, around the files.
\<close>

definition members_a :: "(string \<times> string) list" where
  "members_a =
     [(''LazyFox-1.0/'', ''''),
      (''LazyFox-1.0/README.md'', ''readme''),
      (''LazyFox-1.0/docs/'', ''''),
      (''LazyFox-1.0/docs/guide.md'', ''guide''),
      (''LazyFox-1.0/LICENSE'', ''MIT'')]"

definition source_b :: tree where
  "source_b =
     Dir [(''README.md'', File ''readme''),
          (''docs'', Dir [(''guide.md'', File ''guide'')]),
          (''LICENSE'', File ''MIT'')]"

definition zip_url_v1 :: json where
  "zip_url_v1 = JStr ''https://example.org/v1.0.zip''"

text \<open>The latest release is \<open>v1.0\<close>, and its archive URL delivers the given members.\<close>

definition world_zip :: "(string \<times> string) list \<Rightarrow> world" where
  "world_zip members =
     (world_of [(latest_url, Response release_v1)])
       \<lparr>fetch := (\<lambda>url. if url = zip_url_v1 then Fetched ''PK'' (Some members)
                         else FetchURLError ''unreachable'')\<rparr>"

text \<open>The lines \<open>run\<close> prints before the download in these examples.\<close>

definition info_lines :: "out_line list" where
  "info_lines =
     [Repo REPO_URL, Origin ''latest release'', Version (JStr ''v1.0''), Target dest_proj]"

text \<open>A destination that already has a \<open>README.md\<close>.\<close>

definition fs_conflict :: tree where
  "fs_conflict = Dir [(''home'', Dir [(''proj'', Dir [(''README.md'', File ''mine'')])])]"

text \<open>A destination that has a \<open>README.md\<close> and a regular file named \<open>docs\<close>.\<close>

definition fs_clash :: tree where
  "fs_clash =
     Dir [(''home'', Dir [(''proj'',
       Dir [(''README.md'', File ''mine''), (''docs'', File ''notes'')])])]"

text \<open>A destination in which \<open>README.md\<close> is a directory.\<close>

definition fs_dir_at_file :: tree where
  "fs_dir_at_file = Dir [(''home'', Dir [(''proj'', Dir [(''README.md'', Dir [])])])]"

text \<open>Twenty-one files, all of them already in the destination.\<close>

definition names_21 :: "string list" where
  "names_21 = map (\<lambda>c. [c]) ''abcdefghijklmnopqrstu''"

definition source_21 :: tree where
  "source_21 = Dir (map (\<lambda>n. (n, File ''new'')) names_21)"

definition fs_21 :: tree where
  "fs_21 = Dir [(''home'', Dir [(''proj'', Dir (map (\<lambda>n. (n, File ''old'')) names_21))])]"

text \<open>An archive whose only member is a file at the top level.\<close>

definition members_flat :: "(string \<times> string) list" where
  "members_flat = [(''README.md'', ''readme'')]"

section \<open>Facts about strings and requests\<close>

lemma str_in_prefix: "prefix n h \<Longrightarrow> str_in n h"
  by (cases h) auto

text \<open>\<open>str_in\<close> is the substring test.\<close>

lemma str_in_iff: "str_in n h \<longleftrightarrow> (\<exists>a b. h = a @ n @ b)"
proof (induction h)
  case Nil
  then show ?case by auto
next
  case (Cons c cs)
  show ?case
  proof
    assume "str_in n (c # cs)"
    then consider "prefix n (c # cs)" | "str_in n cs" by auto
    then show "\<exists>a b. c # cs = a @ n @ b"
    proof cases
      case 1
      then obtain b where "c # cs = n @ b" by (auto simp: prefix_def)
      then have "c # cs = [] @ n @ b" by simp
      then show ?thesis by blast
    next
      case 2
      with Cons obtain a b where "cs = a @ n @ b" by blast
      then have "c # cs = (c # a) @ n @ b" by simp
      then show ?thesis by blast
    qed
  next
    assume "\<exists>a b. c # cs = a @ n @ b"
    then obtain a b where ab: "c # cs = a @ n @ b" by blast
    show "str_in n (c # cs)"
    proof (cases a)
      case Nil
      with ab have "prefix n (c # cs)" by (simp add: prefix_def)
      then show ?thesis by (rule str_in_prefix)
    next
      case (Cons x a')
      with ab have "cs = a' @ n @ b" by simp
      with Cons.IH show ?thesis by auto
    qed
  qed
qed

lemma str_nat_404: "str_nat 404 = ''404''"
  by (simp add: str_nat.simps digit_char_def)

lemma str_nat_500: "str_nat 500 = ''500''"
  by (simp add: str_nat.simps digit_char_def)

lemma http_404_msg: "str_in ''HTTP 404'' (''HTTP '' @ str_nat 404 @ '': '' @ b)"
  by (simp add: str_nat_404)

lemma api_get_404:
  "api w url = HTTPError 404 body reason \<Longrightarrow>
   \<exists>m. api_get w url log = (Inl (RuntimeError m), log @ [url]) \<and> str_in ''HTTP 404'' m"
  using http_404_msg [of "read_error body reason"] by (simp add: api_get_def)

lemma api_get_response: "api w url = Response j \<Longrightarrow> api_get w url log = (Inr j, log @ [url])"
  by (simp add: api_get_def)

lemma api_get_pair: "api_get w url log = (fst (api_get w url log), log @ [url])"
  by (simp add: api_get_def)

lemma api_get_error:
  "\<forall>j. api w url \<noteq> Response j \<Longrightarrow> \<exists>e. api_get w url log = (Inl e, log @ [url])"
  by (cases "api w url") (simp_all add: api_get_def)

lemma release_attempt_404:
  "str_in ''HTTP 404'' m \<Longrightarrow> release_attempt l t (Inl (RuntimeError m)) = None"
  by (simp add: release_attempt_def)

text \<open>
  What the \<open>try\<close> block does with an error: one whose message does not contain
  \<open>HTTP 404\<close> leaves the resolver at once.
\<close>

lemma release_attempt_raises:
  "\<not> str_in ''HTTP 404'' m \<Longrightarrow>
   release_attempt l t (Inl (RuntimeError m)) = Some (Inl (RuntimeError m))"
  by (simp add: release_attempt_def)

lemma API_BASE_not_latest: "API_BASE \<noteq> latest_url" "API_BASE \<noteq> latest_tag_url"
  by (simp_all add: latest_url_def latest_tag_url_def)

lemma snd_default_branch_source: "snd (default_branch_source w log) = log @ [API_BASE]"
  by (simp add: default_branch_source_def api_get_def Let_def split: http_result.splits json.splits)

section \<open>The resolver: version ``latest''\<close>

lemma resolve_latest_release:
  assumes "api w latest_url = Response (JDict d)" "truthy (dict_get d ''zipball_url'')"
  shows "resolve_source w ''latest'' log =
     (Inr \<lparr>source_type = ''latest release'',
           tag_name = py_or (dict_get d ''tag_name'') (JStr ''latest''),
           zipball_url = dict_get d ''zipball_url''\<rparr>, log @ [latest_url])"
  using assms by (simp add: resolve_source_def api_get_response release_attempt_def)

lemma resolve_latest_tag:
  assumes "api w latest_url = HTTPError 404 body reason"
    and "api w latest_tag_url = Response (JList (JDict d # rest))"
  shows "resolve_source w ''latest'' log =
     (Inr \<lparr>source_type = ''latest tag'',
           tag_name = py_or (dict_get d ''name'') (JStr ''latest-tag''),
           zipball_url = dict_get d ''zipball_url''\<rparr>, log @ [latest_url, latest_tag_url])"
proof -
  obtain m where m: "api_get w latest_url log = (Inl (RuntimeError m), log @ [latest_url])"
    "str_in ''HTTP 404'' m"
    using api_get_404 [OF assms(1)] by blast
  show ?thesis
    by (simp add: resolve_source_def m release_attempt_404 api_get_response [OF assms(2)])
qed

lemma resolve_latest_branch:
  assumes "api w latest_url = HTTPError 404 body reason"
    and "api w latest_tag_url = Response (JList [])"
  shows "resolve_source w ''latest'' log =
     default_branch_source w (log @ [latest_url, latest_tag_url])"
proof -
  obtain m where m: "api_get w latest_url log = (Inl (RuntimeError m), log @ [latest_url])"
    "str_in ''HTTP 404'' m"
    using api_get_404 [OF assms(1)] by blast
  show ?thesis
    by (simp add: resolve_source_def m release_attempt_404 api_get_response [OF assms(2)])
qed

lemma resolve_latest_branch_only_if:
  assumes "API_BASE \<in> set (snd (resolve_source w ''latest'' []))"
  shows "\<exists>tags. api w latest_tag_url = Response tags \<and> (\<forall>x xs. tags \<noteq> JList (x # xs))"
proof (rule ccontr)
  assume neg: "\<not> ?thesis"
  define r where "r = fst (api_get w latest_url [])"
  have a1: "api_get w latest_url [] = (r, [latest_url])"
    unfolding r_def using api_get_pair [of w latest_url "[]"] by simp
  have "snd (resolve_source w ''latest'' []) = [latest_url]
      \<or> snd (resolve_source w ''latest'' []) = [latest_url, latest_tag_url]"
  proof (cases "release_attempt ''latest release'' (JStr ''latest'') r")
    case (Some outcome)
    then show ?thesis by (simp add: resolve_source_def a1)
  next
    case None
    show ?thesis
    proof (cases "\<exists>j. api w latest_tag_url = Response j")
      case True
      then obtain j where j: "api w latest_tag_url = Response j" by blast
      with neg obtain x xs where t: "j = JList (x # xs)" by auto
      show ?thesis
        by (cases x) (simp_all add: resolve_source_def a1 None api_get_response [OF j] t)
    next
      case False
      then obtain e where
        "api_get w latest_tag_url [latest_url] = (Inl e, [latest_url] @ [latest_tag_url])"
        using api_get_error [of w latest_tag_url "[latest_url]"] by auto
      then show ?thesis by (simp add: resolve_source_def a1 None)
    qed
  qed
  with assms show False by (auto simp: API_BASE_not_latest)
qed

text \<open>
  C1. For the version \<open>latest\<close> the resolver follows the ordered fallback, and the first
  success wins. (1) When the latest-release endpoint answers with a release whose
  \<open>zipball_url\<close> is set, that release is the result and the only request made is the one
  to that endpoint. (2) When the endpoint answers not-found (status 404), the resolver
  asks for the one most recent tag (\<open>per_page=1\<close>) and uses the first entry of the
  listing; the repository endpoint is not asked. (3) When that listing is empty, the
  result is the one of the default-branch lookup, which is the third request.
  (4) The default branch is consulted only then: whenever the repository endpoint was
  requested, the tag listing had been answered and had no entry.
\<close>

theorem resolve_latest_fallback_order:
  "(\<forall>d. api w latest_url = Response (JDict d) \<longrightarrow> truthy (dict_get d ''zipball_url'') \<longrightarrow>
      resolve_source w ''latest'' log =
        (Inr \<lparr>source_type = ''latest release'',
              tag_name = py_or (dict_get d ''tag_name'') (JStr ''latest''),
              zipball_url = dict_get d ''zipball_url''\<rparr>, log @ [latest_url]))
   \<and> (\<forall>body reason d rest.
        api w latest_url = HTTPError 404 body reason \<longrightarrow>
        api w latest_tag_url = Response (JList (JDict d # rest)) \<longrightarrow>
        resolve_source w ''latest'' log =
          (Inr \<lparr>source_type = ''latest tag'',
                tag_name = py_or (dict_get d ''name'') (JStr ''latest-tag''),
                zipball_url = dict_get d ''zipball_url''\<rparr>,
           log @ [latest_url, latest_tag_url]))
   \<and> (\<forall>body reason.
        api w latest_url = HTTPError 404 body reason \<longrightarrow>
        api w latest_tag_url = Response (JList []) \<longrightarrow>
        resolve_source w ''latest'' log =
          default_branch_source w (log @ [latest_url, latest_tag_url])
        \<and> snd (resolve_source w ''latest'' log) = log @ [latest_url, latest_tag_url, API_BASE])
   \<and> (API_BASE \<in> set (snd (resolve_source w ''latest'' [])) \<longrightarrow>
        (\<exists>tags. api w latest_tag_url = Response tags \<and> (\<forall>x xs. tags \<noteq> JList (x # xs))))"
proof (intro conjI allI impI)
  fix d
  assume "api w latest_url = Response (JDict d)" "truthy (dict_get d ''zipball_url'')"
  then show "resolve_source w ''latest'' log =
        (Inr \<lparr>source_type = ''latest release'',
              tag_name = py_or (dict_get d ''tag_name'') (JStr ''latest''),
              zipball_url = dict_get d ''zipball_url''\<rparr>, log @ [latest_url])"
    by (rule resolve_latest_release)
next
  fix body reason d rest
  assume "api w latest_url = HTTPError 404 body reason"
    "api w latest_tag_url = Response (JList (JDict d # rest))"
  then show "resolve_source w ''latest'' log =
          (Inr \<lparr>source_type = ''latest tag'',
                tag_name = py_or (dict_get d ''name'') (JStr ''latest-tag''),
                zipball_url = dict_get d ''zipball_url''\<rparr>,
           log @ [latest_url, latest_tag_url])"
    by (rule resolve_latest_tag)
next
  fix body reason
  assume a: "api w latest_url = HTTPError 404 body reason"
    "api w latest_tag_url = Response (JList [])"
  then show b: "resolve_source w ''latest'' log =
          default_branch_source w (log @ [latest_url, latest_tag_url])"
    by (rule resolve_latest_branch)
  show "snd (resolve_source w ''latest'' log) = log @ [latest_url, latest_tag_url, API_BASE]"
    by (simp add: b snd_default_branch_source)
next
  assume "API_BASE \<in> set (snd (resolve_source w ''latest'' []))"
  then show "\<exists>tags. api w latest_tag_url = Response tags \<and> (\<forall>x xs. tags \<noteq> JList (x # xs))"
    by (rule resolve_latest_branch_only_if)
qed

lemmas url_defs = latest_url_def latest_tag_url_def release_url_def tags_page_url_def
  API_BASE_def REPO_URL_def REPO_def

lemmas example_defs = world_of_def release_v1_def tag_v09_def not_found_def server_error_def

theorem resolve_latest_fallback_order_witness:
  "resolve_source world_release ''latest'' [] =
     (Inr \<lparr>source_type = ''latest release'', tag_name = JStr ''v1.0'',
           zipball_url = JStr ''https://example.org/v1.0.zip''\<rparr>, [latest_url])
   \<and> resolve_source world_tag ''latest'' [] =
     (Inr \<lparr>source_type = ''latest tag'', tag_name = JStr ''v0.9'',
           zipball_url = JStr ''https://example.org/v0.9.zip''\<rparr>, [latest_url, latest_tag_url])
   \<and> resolve_source world_branch ''latest'' [] =
     (Inr \<lparr>source_type = ''default branch (main)'', tag_name = JStr ''main'',
           zipball_url = JStr ''https://github.com/AmethystDev-Labs/LazyFox/archive/refs/heads/main.zip''\<rparr>,
      [latest_url, latest_tag_url, API_BASE])
   \<and> API_BASE \<in> set (snd (resolve_source world_branch ''latest'' []))
   \<and> api world_branch latest_tag_url = Response (JList [])"
proof -
  have 1: "api world_release latest_url = Response (JDict [(''tag_name'', JStr ''v1.0''),
      (''zipball_url'', JStr ''https://example.org/v1.0.zip'')])"
    by (simp add: world_release_def example_defs)
  have 2: "api world_tag latest_url = HTTPError 404 (Some ''Not Found'') ''Not Found''"
    "api world_tag latest_tag_url = Response (JList (JDict [(''name'', JStr ''v0.9''),
      (''zipball_url'', JStr ''https://example.org/v0.9.zip'')] # []))"
    by (simp_all add: world_tag_def example_defs url_defs)
  have 3: "api world_branch latest_url = HTTPError 404 (Some ''Not Found'') ''Not Found''"
    "api world_branch latest_tag_url = Response (JList [])"
    by (simp_all add: world_branch_def example_defs url_defs)
  have 4: "default_branch_source world_branch ([] @ [latest_url, latest_tag_url]) =
     (Inr \<lparr>source_type = ''default branch (main)'', tag_name = JStr ''main'',
           zipball_url = JStr ''https://github.com/AmethystDev-Labs/LazyFox/archive/refs/heads/main.zip''\<rparr>,
      [latest_url, latest_tag_url, API_BASE])"
    by (simp add: default_branch_source_def api_get_def world_branch_def example_defs url_defs
        dict_get_def)
  show ?thesis
    using resolve_latest_fallback_order [of world_release "[]"]
      resolve_latest_fallback_order [of world_tag "[]"]
      resolve_latest_fallback_order [of world_branch "[]"] 1 2 3 4
    by (simp add: dict_get_def py_or_def)
qed

section \<open>The resolver: an explicit version\<close>

lemma scan_tags_none:
  "\<forall>item \<in> set items. \<exists>d. item = JDict d \<and> dict_get d ''name'' \<noteq> JStr version \<Longrightarrow>
   scan_tags version items = Inr None"
  by (induction items) auto

text \<open>
  C3. An explicit version (any string other than \<open>latest\<close>) for which the
  release-by-tag endpoint answers not-found, and which is the name of no entry of the
  page of tags the listing returns (the page requested with \<open>per_page=100\<close>), makes
  the resolver fail with the ``version not found'' \<open>RuntimeError\<close>. The requests made
  are exactly the release lookup and the tag listing: none follows the failure.
\<close>

theorem explicit_version_not_found:
  assumes "version \<noteq> ''latest''"
    and "api w (release_url version) = HTTPError 404 body reason"
    and "api w tags_page_url = Response (JList items)"
    and "\<forall>item \<in> set items. \<exists>d. item = JDict d \<and> dict_get d ''name'' \<noteq> JStr version"
  shows "resolve_source w version log =
     (Inl (RuntimeError (msg_version_not_found version)),
      log @ [release_url version, tags_page_url])"
proof -
  obtain m where m:
    "api_get w (release_url version) log = (Inl (RuntimeError m), log @ [release_url version])"
    "str_in ''HTTP 404'' m"
    using api_get_404 [OF assms(2)] by blast
  show ?thesis
    using assms(1)
    by (simp add: resolve_source_def m release_attempt_404 api_get_response [OF assms(3)]
        scan_tags_none [OF assms(4)])
qed

lemma world_no_v9_facts:
  "api world_no_v9 (release_url ''v9'') = HTTPError 404 (Some ''Not Found'') ''Not Found''"
  "api world_no_v9 tags_page_url = Response (JList [tag_v09])"
  "\<forall>item \<in> set [tag_v09]. \<exists>d. item = JDict d \<and> dict_get d ''name'' \<noteq> JStr ''v9''"
  by (simp_all add: world_no_v9_def example_defs url_defs dict_get_def)

theorem explicit_version_not_found_witness:
  "''v9'' \<noteq> ''latest''
   \<and> resolve_source world_no_v9 ''v9'' [] =
     (Inl (RuntimeError (msg_version_not_found ''v9'')), [release_url ''v9'', tags_page_url])"
proof -
  have 1: "api world_no_v9 (release_url ''v9'') = HTTPError 404 (Some ''Not Found'') ''Not Found''"
    by (simp add: world_no_v9_def example_defs url_defs)
  have 2: "api world_no_v9 tags_page_url = Response (JList [tag_v09])"
    by (simp add: world_no_v9_def example_defs url_defs)
  have 3: "\<forall>item \<in> set [tag_v09]. \<exists>d. item = JDict d \<and> dict_get d ''name'' \<noteq> JStr ''v9''"
    by (simp add: tag_v09_def dict_get_def)
  show ?thesis
    using explicit_version_not_found [OF _ 1 2 3, of "[]"] by simp
qed

text \<open>
  A release endpoint error that leaves the resolver at once: its message does not
  contain \<open>HTTP 404\<close>.
\<close>

lemma release_error_propagates:
  assumes "api w latest_url = HTTPError code body reason"
    and "m = ''HTTP '' @ str_nat code @ '': '' @ read_error body reason"
    and "\<not> str_in ''HTTP 404'' m"
  shows "resolve_source w ''latest'' log = (Inl (RuntimeError m), log @ [latest_url])"
proof -
  have "api_get w latest_url log = (Inl (RuntimeError m), log @ [latest_url])"
    by (simp add: api_get_def assms(1,2))
  then show ?thesis
    by (simp add: resolve_source_def release_attempt_raises [OF assms(3)])
qed

text \<open>
  C4. The resolver decides between propagating and falling through by looking for the
  text \<open>HTTP 404\<close> anywhere in the message, which holds the response body. A release
  endpoint that answers with status 500 and a body quoting \<open>HTTP 404\<close> is therefore
  taken for not-found: for \<open>latest\<close> and for an explicit version alike the resolver goes
  on to the tag listing and returns a tag, where the error should have reached the
  caller.
\<close>

theorem server_error_quoting_404_falls_through:
  "resolve_source world_500 ''latest'' [] =
     (Inr \<lparr>source_type = ''latest tag'', tag_name = JStr ''v0.9'',
           zipball_url = JStr ''https://example.org/v0.9.zip''\<rparr>, [latest_url, latest_tag_url])
   \<and> resolve_source world_500 ''v0.9'' [] =
     (Inr \<lparr>source_type = ''git tag'', tag_name = JStr ''v0.9'',
           zipball_url = JStr ''https://example.org/v0.9.zip''\<rparr>,
      [release_url ''v0.9'', tags_page_url])"
proof -
  have m: "str_in ''HTTP 404'' ''HTTP 500: upstream said HTTP 404''"
    by simp
  have 1: "api_get world_500 latest_url [] =
      (Inl (RuntimeError ''HTTP 500: upstream said HTTP 404''), [latest_url])"
    by (simp add: api_get_def world_500_def example_defs url_defs read_error_def str_nat_500)
  have 2: "api_get world_500 (release_url ''v0.9'') [] =
      (Inl (RuntimeError ''HTTP 500: upstream said HTTP 404''),
       [release_url ''v0.9''])"
    by (simp add: api_get_def world_500_def example_defs url_defs read_error_def str_nat_500)
  have 3: "api world_500 latest_tag_url = Response (JList [tag_v09])"
    by (simp add: world_500_def example_defs url_defs)
  have 4: "api world_500 tags_page_url = Response (JList [tag_v09])"
    by (simp add: world_500_def example_defs url_defs)
  have a: "resolve_source world_500 ''latest'' [] =
     (Inr \<lparr>source_type = ''latest tag'', tag_name = JStr ''v0.9'',
           zipball_url = JStr ''https://example.org/v0.9.zip''\<rparr>, [latest_url, latest_tag_url])"
    by (simp add: resolve_source_def 1 release_attempt_404 [OF m] api_get_response [OF 3])
       (simp add: tag_v09_def dict_get_def py_or_def)
  have b: "resolve_source world_500 ''v0.9'' [] =
     (Inr \<lparr>source_type = ''git tag'', tag_name = JStr ''v0.9'',
           zipball_url = JStr ''https://example.org/v0.9.zip''\<rparr>,
      [release_url ''v0.9'', tags_page_url])"
    by (simp add: resolve_source_def 2 release_attempt_404 [OF m] api_get_response [OF 4])
       (simp add: tag_v09_def dict_get_def)
  from a b show ?thesis by simp
qed

section \<open>Facts about the file system\<close>

lemma stat_Nil [simp]: "stat t [] = Some (kind_of t)"
  by (simp add: stat_def)

lemma stat_File_Cons [simp]: "stat (File c) (n # p) = None"
  by (simp add: stat_def)

lemma stat_Dir_Cons:
  "stat (Dir es) (n # p) = (case map_of es n of None \<Rightarrow> None | Some ch \<Rightarrow> stat ch p)"
  by (simp add: stat_def split: option.splits)

lemma stat_empty_dir: "stat (Dir []) q = (if q = [] then Some KDir else None)"
  by (cases q) (simp_all add: stat_Dir_Cons)

lemma mkdir_p_Dir: "mkdir_p t p = Inr t' \<Longrightarrow> \<exists>es. t' = Dir es"
  by (induction t p rule: mkdir_p.induct) (auto split: sum.splits)

lemma stat_mkdir_p:
  "mkdir_p t p = Inr t' \<Longrightarrow> stat t' q = (if prefix q p then Some KDir else stat t q)"
proof (induction t p arbitrary: t' q rule: mkdir_p.induct)
  case (1 c)
  then show ?case by simp
next
  case (2 es)
  then show ?case by (cases q) auto
next
  case (3 c n p)
  then show ?case by simp
next
  case (4 es n p)
  define ch0 where "ch0 = (case map_of es n of None \<Rightarrow> Dir [] | Some ch \<Rightarrow> ch)"
  from "4.prems" obtain ch' where ch': "mkdir_p ch0 p = Inr ch'"
    and t': "t' = Dir (AList.update n ch' es)"
    by (auto simp: ch0_def split: sum.splits)
  show ?case
  proof (cases q)
    case Nil
    then show ?thesis by (simp add: t')
  next
    case (Cons m q')
    show ?thesis
    proof (cases "m = n")
      case True
      have "stat ch' q' = (if prefix q' p then Some KDir else stat ch0 q')"
        using "4.IH" ch' unfolding ch0_def by blast
      moreover have "\<not> prefix q' p \<Longrightarrow> stat ch0 q' = stat (Dir es) (n # q')"
        by (cases "map_of es n") (auto simp: ch0_def stat_Dir_Cons stat_empty_dir)
      ultimately show ?thesis
        by (simp add: Cons True t' stat_Dir_Cons update_conv')
    next
      case False
      then show ?thesis by (simp add: Cons t' stat_Dir_Cons update_conv')
    qed
  qed
qed

lemma mkdir_p_succeeds:
  "(\<forall>q c. prefix q p \<longrightarrow> stat t q \<noteq> Some (KFile c)) \<Longrightarrow> \<exists>t'. mkdir_p t p = Inr t'"
proof (induction t p rule: mkdir_p.induct)
  case (1 c)
  then show ?case by simp
next
  case (2 es)
  then show ?case by simp
next
  case (3 c n p)
  from "3.prems" have "prefix [] (n # p) \<longrightarrow> stat (File c) [] \<noteq> Some (KFile c)" by blast
  then show ?case by simp
next
  case (4 es n p)
  define ch0 where "ch0 = (case map_of es n of None \<Rightarrow> Dir [] | Some ch \<Rightarrow> ch)"
  have "\<forall>q c. prefix q p \<longrightarrow> stat ch0 q \<noteq> Some (KFile c)"
  proof (intro allI impI)
    fix q c assume q: "prefix q p"
    with "4.prems" have "stat (Dir es) (n # q) \<noteq> Some (KFile c)" by simp
    then show "stat ch0 q \<noteq> Some (KFile c)"
      by (cases "map_of es n") (auto simp: ch0_def stat_Dir_Cons stat_empty_dir)
  qed
  with "4.IH" obtain ch' where "mkdir_p ch0 p = Inr ch'" unfolding ch0_def by blast
  then show ?case by (simp add: ch0_def)
qed

lemma stat_write_file:
  "write_file t p c = Inr t' \<Longrightarrow> stat t' q = (if q = p then Some (KFile c) else stat t q)"
proof (induction t p c arbitrary: t' q rule: write_file.induct)
  case (1 old c)
  then show ?case by (cases q) auto
next
  case (2 es c)
  then show ?case by simp
next
  case (3 old n p c)
  then show ?case by simp
next
  case (4 es n p c)
  show ?case
  proof (cases "map_of es n")
    case None
    with "4.prems" have p: "p = []" and t': "t' = Dir (AList.update n (File c) es)"
      by (auto split: if_splits)
    show ?thesis
    proof (cases q)
      case Nil
      then show ?thesis by (simp add: t')
    next
      case (Cons m q')
      then show ?thesis
        by (cases q') (auto simp: t' p stat_Dir_Cons update_conv' None)
    qed
  next
    case (Some ch)
    with "4.prems" obtain ch' where ch': "write_file ch p c = Inr ch'"
      and t': "t' = Dir (AList.update n ch' es)"
      by (auto split: sum.splits)
    have IH: "\<And>q. stat ch' q = (if q = p then Some (KFile c) else stat ch q)"
      using "4.IH" Some ch' by blast
    show ?thesis
    proof (cases q)
      case Nil
      then show ?thesis by (simp add: t')
    next
      case (Cons m q')
      then show ?thesis
        by (auto simp: t' stat_Dir_Cons update_conv' Some IH)
    qed
  qed
qed

lemma write_file_succeeds:
  "p \<noteq> [] \<Longrightarrow> stat t (butlast p) = Some KDir \<Longrightarrow> stat t p \<noteq> Some KDir \<Longrightarrow>
   \<exists>t'. write_file t p c = Inr t'"
proof (induction t p c rule: write_file.induct)
  case (1 old c)
  then show ?case by simp
next
  case (2 es c)
  then show ?case by simp
next
  case (3 old n p c)
  then show ?case by (cases p) auto
next
  case (4 es n p c)
  show ?case
  proof (cases "map_of es n")
    case None
    with "4.prems" show ?thesis by (cases p) (auto simp: stat_Dir_Cons)
  next
    case (Some ch)
    show ?thesis
    proof (cases "p = []")
      case True
      with "4.prems" Some have "\<exists>old. ch = File old"
        by (cases ch) (auto simp: stat_Dir_Cons)
      with True Some show ?thesis by auto
    next
      case False
      with "4.prems" Some have "stat ch (butlast p) = Some KDir" "stat ch p \<noteq> Some KDir"
        by (auto simp: stat_Dir_Cons)
      with "4.IH" Some False obtain ch' where "write_file ch p c = Inr ch'" by blast
      with Some show ?thesis by simp
    qed
  qed
qed

lemma stat_append:
  "stat t (p @ q) = (case lookup t p of None \<Rightarrow> None | Some s \<Rightarrow> stat s q)"
  by (induction t p rule: lookup.induct) (auto simp: stat_def split: option.splits)

lemma lookup_append:
  "lookup t (p @ q) = (case lookup t p of None \<Rightarrow> None | Some s \<Rightarrow> lookup s q)"
  by (induction t p rule: lookup.induct) (auto split: option.splits)

lemma stat_prefix_dir:
  "stat t (p @ q) \<noteq> None \<Longrightarrow> q \<noteq> [] \<Longrightarrow> stat t p = Some KDir"
proof -
  assume a: "stat t (p @ q) \<noteq> None" and q: "q \<noteq> []"
  from a obtain s where s: "lookup t p = Some s" and sq: "stat s q \<noteq> None"
    by (auto simp: stat_append split: option.splits)
  from q obtain n q' where "q = n # q'" by (cases q) auto
  with sq have "\<exists>es. s = Dir es" by (cases s) auto
  with s show ?thesis by (auto simp: stat_def)
qed

section \<open>Facts about the walk\<close>

lemma walk_nonempty: "(p, n) \<in> set (walk t) \<Longrightarrow> p \<noteq> []"
  by (cases t) auto

lemma in_walk_Dir:
  "(p, n) \<in> set (walk (Dir es)) \<longleftrightarrow>
     (\<exists>m. p = [m] \<and> (m, n) \<in> set es)
     \<or> (\<exists>m ch p'. p = m # p' \<and> (m, ch) \<in> set es \<and> (p', n) \<in> set (walk ch))"
proof
  assume "(p, n) \<in> set (walk (Dir es))"
  then consider e where "e \<in> set es" "(p, n) = ([fst e], snd e)"
    | e x where "e \<in> set es" "x \<in> set (walk (snd e))" "(p, n) = (fst e # fst x, snd x)"
    by auto
  then show "(\<exists>m. p = [m] \<and> (m, n) \<in> set es)
     \<or> (\<exists>m ch p'. p = m # p' \<and> (m, ch) \<in> set es \<and> (p', n) \<in> set (walk ch))"
  proof cases
    case 1
    then have "p = [fst e]" "(fst e, n) \<in> set es" by auto
    then show ?thesis by blast
  next
    case 2
    then have "p = fst e # fst x" "(fst e, snd e) \<in> set es" "(fst x, n) \<in> set (walk (snd e))"
      by auto
    then show ?thesis by blast
  qed
next
  assume "(\<exists>m. p = [m] \<and> (m, n) \<in> set es)
     \<or> (\<exists>m ch p'. p = m # p' \<and> (m, ch) \<in> set es \<and> (p', n) \<in> set (walk ch))"
  then show "(p, n) \<in> set (walk (Dir es))"
  proof
    assume "\<exists>m. p = [m] \<and> (m, n) \<in> set es"
    then obtain m where "p = [m]" "(m, n) \<in> set es" by blast
    then have "(p, n) \<in> (\<lambda>e. ([fst e], snd e)) ` set es" by force
    then show ?thesis by simp
  next
    assume "\<exists>m ch p'. p = m # p' \<and> (m, ch) \<in> set es \<and> (p', n) \<in> set (walk ch)"
    then obtain m ch p' where a: "p = m # p'" "(m, ch) \<in> set es" "(p', n) \<in> set (walk ch)"
      by blast
    then have "(p, n) \<in> (\<lambda>x. (fst (m, ch) # fst x, snd x)) ` set (walk (snd (m, ch)))"
      by force
    with a(2) show ?thesis by (simp del: fst_conv snd_conv) blast
  qed
qed

lemma walk_iff_lookup:
  "wf_tree t \<Longrightarrow> (p, n) \<in> set (walk t) \<longleftrightarrow> p \<noteq> [] \<and> lookup t p = Some n"
proof (induction t arbitrary: p n rule: walk.induct)
  case (1 c)
  then show ?case by (cases p) auto
next
  case (2 es)
  from "2.prems" have d: "distinct (map fst es)" and wf: "\<And>e. e \<in> set es \<Longrightarrow> wf_tree (snd e)"
    by auto
  have mo: "\<And>m ch. map_of es m = Some ch \<longleftrightarrow> (m, ch) \<in> set es"
    using d by simp
  have IH: "\<And>m ch p n. (m, ch) \<in> set es \<Longrightarrow>
      (p, n) \<in> set (walk ch) \<longleftrightarrow> p \<noteq> [] \<and> lookup ch p = Some n"
    using "2.IH" wf by fastforce
  show ?case
  proof (cases p)
    case Nil
    then show ?thesis by (simp add: in_walk_Dir del: walk.simps)
  next
    case (Cons m p')
    show ?thesis
    proof (cases "p' = []")
      case True
      have "(([m], n) \<in> set (walk (Dir es))) = ((m, n) \<in> set es)"
        using walk_nonempty by (auto simp: in_walk_Dir simp del: walk.simps)
      then show ?thesis by (simp add: Cons True mo [symmetric] split: option.splits)
    next
      case False
      have "((m # p', n) \<in> set (walk (Dir es))) =
            (\<exists>ch. (m, ch) \<in> set es \<and> (p', n) \<in> set (walk ch))"
        using False by (simp add: in_walk_Dir del: walk.simps)
      also have "\<dots> = (\<exists>ch. (m, ch) \<in> set es \<and> lookup ch p' = Some n)"
        using IH False by blast
      also have "\<dots> = (lookup (Dir es) (m # p') = Some n)"
        by (cases "map_of es m") (auto simp: mo [symmetric])
      finally show ?thesis by (simp add: Cons)
    qed
  qed
qed


lemma paths_walk_Dir:
  "map fst (walk (Dir es)) =
     map (\<lambda>e. [fst e]) es
     @ concat (map (\<lambda>e. map ((#) (fst e)) (map fst (walk (snd e)))) es)"
  by (simp add: map_concat comp_def)

lemma distinct_under:
  "distinct (map fst es) \<Longrightarrow> (\<And>e. e \<in> set es \<Longrightarrow> distinct (g e)) \<Longrightarrow>
   distinct (concat (map (\<lambda>e. map ((#) (fst e)) (g e)) es))"
proof (induction es)
  case Nil
  then show ?case by simp
next
  case (Cons e es)
  have 1: "distinct (map ((#) (fst e)) (g e))"
    using Cons.prems(2) [of e] by (simp add: distinct_map)
  have 2: "distinct (concat (map (\<lambda>e. map ((#) (fst e)) (g e)) es))"
    using Cons by simp
  have 3: "set (map ((#) (fst e)) (g e))
        \<inter> set (concat (map (\<lambda>e. map ((#) (fst e)) (g e)) es)) = {}"
  proof (rule ccontr)
    assume "\<not> ?thesis"
    then obtain p where p1: "p \<in> set (map ((#) (fst e)) (g e))"
      and p2: "p \<in> set (concat (map (\<lambda>e. map ((#) (fst e)) (g e)) es))"
      by blast
    from p1 obtain r where r: "p = fst e # r" by auto
    from p2 obtain e' r' where e': "e' \<in> set es" "p = fst e' # r'" by auto
    from r e' have "fst e \<in> fst ` set es" by force
    with Cons.prems(1) show False by simp
  qed
  from 1 2 3 show ?case by simp
qed

lemma distinct_walk: "wf_tree t \<Longrightarrow> distinct (map fst (walk t))"
proof (induction t rule: walk.induct)
  case (1 c)
  then show ?case by simp
next
  case (2 es)
  from "2.prems" have d: "distinct (map fst es)" and wf: "\<And>e. e \<in> set es \<Longrightarrow> wf_tree (snd e)"
    by auto
  have a: "distinct (map (\<lambda>e. [fst e]) es)"
    using d by (simp add: distinct_map inj_on_def)
  have b: "distinct (concat (map (\<lambda>e. map ((#) (fst e)) (map fst (walk (snd e)))) es))"
    using d "2.IH" wf by (intro distinct_under) auto
  have c: "set (map (\<lambda>e. [fst e]) es)
        \<inter> set (concat (map (\<lambda>e. map ((#) (fst e)) (map fst (walk (snd e)))) es)) = {}"
  proof (rule ccontr)
    assume "\<not> ?thesis"
    then obtain p where p1: "p \<in> set (map (\<lambda>e. [fst e]) es)"
      and p2: "p \<in> set (concat (map (\<lambda>e. map ((#) (fst e)) (map fst (walk (snd e)))) es))"
      by blast
    from p1 have l: "length p = 1" by auto
    from p2 obtain e x where "e \<in> set es" "x \<in> set (walk (snd e))" "p = fst e # fst x"
      by auto
    moreover from this have "fst x \<noteq> []" using walk_nonempty [of "fst x" "snd x" "snd e"] by simp
    ultimately show False using l by simp
  qed
  from a b c show ?case unfolding paths_walk_Dir by simp
qed

lemma walk_file_leaf:
  assumes "wf_tree t" "(p, File c) \<in> set (walk t)" "(q, n) \<in> set (walk t)"
  shows "\<not> strict_prefix p q"
proof
  assume "strict_prefix p q"
  then obtain r where r: "q = p @ r" "r \<noteq> []" by (auto simp: strict_prefix_def prefix_def)
  from assms have "lookup t p = Some (File c)" "lookup t q = Some n"
    by (simp_all add: walk_iff_lookup)
  with r show False by (cases r) (simp_all add: lookup_append)
qed

section \<open>One round of the copy loop\<close>

lemma stat_prefix_of_dir: "stat t d = Some KDir \<Longrightarrow> prefix x d \<Longrightarrow> stat t x = Some KDir"
proof -
  assume d: "stat t d = Some KDir" and "prefix x d"
  then obtain r where r: "d = x @ r" by (auto simp: prefix_def)
  show ?thesis
  proof (cases "r = []")
    case True
    with r d show ?thesis by simp
  next
    case False
    with r d show ?thesis using stat_prefix_dir [of t x r] by simp
  qed
qed

lemma mkdir_p_prefix_not_file:
  "mkdir_p t p = Inr t' \<Longrightarrow> prefix q p \<Longrightarrow> stat t q \<noteq> Some (KFile c)"
proof (induction t p arbitrary: t' q rule: mkdir_p.induct)
  case (1 c)
  then show ?case by simp
next
  case (2 es)
  then show ?case by auto
next
  case (3 c n p)
  then show ?case by simp
next
  case (4 es n p)
  define ch0 where "ch0 = (case map_of es n of None \<Rightarrow> Dir [] | Some ch \<Rightarrow> ch)"
  from "4.prems" obtain ch' where ch': "mkdir_p ch0 p = Inr ch'"
    by (auto simp: ch0_def split: sum.splits)
  show ?case
  proof (cases q)
    case Nil
    then show ?thesis by simp
  next
    case (Cons m q')
    with "4.prems"(2) have m: "m = n" and q': "prefix q' p" by auto
    have "stat ch0 q' \<noteq> Some (KFile c)"
      using "4.IH" ch' q' unfolding ch0_def by blast
    then show ?thesis
      by (cases "map_of es n") (auto simp: Cons m stat_Dir_Cons ch0_def)
  qed
qed

lemma write_file_not_dir: "write_file t p c = Inr t' \<Longrightarrow> stat t p \<noteq> Some KDir"
proof (induction t p c arbitrary: t' rule: write_file.induct)
  case (4 es n p c)
  then show ?case
    by (cases "map_of es n") (auto simp: stat_Dir_Cons split: sum.splits if_splits)
qed simp_all

lemma coherent_tl: "coherent (e # L) \<Longrightarrow> coherent L"
  by (auto simp: coherent_def)

lemma coherent_hd_file:
  "coherent (e # L) \<Longrightarrow> is_file (snd e) \<Longrightarrow> e' \<in> set L \<Longrightarrow> \<not> prefix (fst e) (fst e')"
proof
  assume a: "coherent (e # L)" "is_file (snd e)" "e' \<in> set L" and p: "prefix (fst e) (fst e')"
  from a have "fst e \<noteq> fst e'" by (auto simp: coherent_def)
  with p have "strict_prefix (fst e) (fst e')" by (simp add: strict_prefix_def)
  with a show False unfolding coherent_def by auto
qed

lemma coherent_tl_file:
  "coherent (e # L) \<Longrightarrow> e' \<in> set L \<Longrightarrow> is_file (snd e') \<Longrightarrow> \<not> prefix (fst e') (fst e)"
proof
  assume a: "coherent (e # L)" "e' \<in> set L" "is_file (snd e')" and p: "prefix (fst e') (fst e)"
  from a have "fst e \<noteq> fst e'" by (auto simp: coherent_def)
  with p have "strict_prefix (fst e') (fst e)" by (simp add: strict_prefix_def)
  with a show False unfolding coherent_def by auto
qed

lemma clear_dest_prefix:
  assumes "clear dest force fs L" "prefix x dest"
  shows "stat fs x = Some KDir"
  using assms stat_prefix_of_dir unfolding clear_def by blast

lemma step_dir:
  assumes coh: "coherent ((p, Dir es) # L)" and cl: "clear dest force fs ((p, Dir es) # L)"
  shows "\<exists>fs1. mkdir_p fs (dest @ p) = Inr fs1 \<and> clear dest force fs1 L
      \<and> filter (conflicting dest force fs1) L = filter (conflicting dest force fs) L
      \<and> (\<forall>e \<in> set L. conflicting dest force fs1 e = conflicting dest force fs e)"
proof -
  have "\<forall>x c. prefix x (dest @ p) \<longrightarrow> stat fs x \<noteq> Some (KFile c)"
  proof (intro allI impI)
    fix x c assume "prefix x (dest @ p)"
    then consider "prefix x dest" | q where "x = dest @ q" "prefix q p"
      by (auto simp: prefix_append)
    then show "stat fs x \<noteq> Some (KFile c)"
    proof cases
      case 1
      with cl show ?thesis using clear_dest_prefix by fastforce
    next
      case 2
      with cl show ?thesis unfolding clear_def by fastforce
    qed
  qed
  then obtain fs1 where m: "mkdir_p fs (dest @ p) = Inr fs1"
    using mkdir_p_succeeds by blast
  have st: "\<And>x. stat fs1 x = (if prefix x (dest @ p) then Some KDir else stat fs x)"
    using stat_mkdir_p [OF m] .
  have same: "\<And>e. e \<in> set L \<Longrightarrow> is_file (snd e) \<Longrightarrow> stat fs1 (dest @ fst e) = stat fs (dest @ fst e)"
    using coherent_tl_file [OF coh] by (simp add: st)
  have c1: "clear dest force fs1 L"
    unfolding clear_def
  proof (intro conjI ballI allI impI)
    show "stat fs1 dest = Some KDir" by (simp add: st)
  next
    fix e q c assume "e \<in> set L" "prefix q (fst e)" "q \<noteq> fst e \<or> \<not> is_file (snd e)"
    with cl have "stat fs (dest @ q) \<noteq> Some (KFile c)" unfolding clear_def by simp
    then show "stat fs1 (dest @ q) \<noteq> Some (KFile c)" by (simp add: st)
  next
    fix e assume "force" "e \<in> set L" "is_file (snd e)"
    with cl same show "stat fs1 (dest @ fst e) \<noteq> Some KDir" unfolding clear_def by simp
  qed
  have c2: "\<forall>e \<in> set L. conflicting dest force fs1 e = conflicting dest force fs e"
    using same by (auto simp: conflicting_def path_exists_def)
  then have c3: "filter (conflicting dest force fs1) L = filter (conflicting dest force fs) L"
    by (intro filter_cong) auto
  from m c1 c2 c3 show ?thesis by blast
qed

lemma butlast_target: "p \<noteq> [] \<Longrightarrow> butlast (dest @ p) = dest @ butlast p"
  by (simp add: butlast_append)

lemma step_file:
  assumes coh: "coherent ((p, File c) # L)" and cl: "clear dest force fs ((p, File c) # L)"
    and nc: "\<not> conflicting dest force fs (p, File c)"
  shows "\<exists>fs1 fs2. mkdir_p fs (butlast (dest @ p)) = Inr fs1
      \<and> copy2 fs1 (basename p) c (dest @ p) = Inr fs2
      \<and> stat fs2 (dest @ p) = Some (KFile c)
      \<and> clear dest force fs2 L
      \<and> filter (conflicting dest force fs2) L = filter (conflicting dest force fs) L
      \<and> (\<forall>e \<in> set L. conflicting dest force fs2 e = conflicting dest force fs e)"
proof -
  from coh have pne: "p \<noteq> []" by (simp add: coherent_def)
  have bl: "butlast (dest @ p) = dest @ butlast p" using pne by (rule butlast_target)
  have sp: "strict_prefix (butlast p) p"
  proof (rule strict_prefixI')
    show "p = butlast p @ last p # []" using pne by simp
  qed
  have "\<forall>x k. prefix x (dest @ butlast p) \<longrightarrow> stat fs x \<noteq> Some (KFile k)"
  proof (intro allI impI)
    fix x k assume "prefix x (dest @ butlast p)"
    then consider "prefix x dest" | q where "x = dest @ q" "prefix q (butlast p)"
      by (auto simp: prefix_append)
    then show "stat fs x \<noteq> Some (KFile k)"
    proof cases
      case 1
      with cl show ?thesis using clear_dest_prefix by fastforce
    next
      case 2
      with sp have "prefix q p" "q \<noteq> p" by (auto simp: strict_prefix_def)
      with cl 2 show ?thesis unfolding clear_def by fastforce
    qed
  qed
  then obtain fs1 where m: "mkdir_p fs (butlast (dest @ p)) = Inr fs1"
    using mkdir_p_succeeds unfolding bl by blast
  have st1: "\<And>x. stat fs1 x = (if prefix x (dest @ butlast p) then Some KDir else stat fs x)"
    using stat_mkdir_p [OF m] unfolding bl .
  have np: "\<not> prefix (dest @ p) (dest @ butlast p)"
    using sp by (auto simp: strict_prefix_def)
  have tgt: "stat fs1 (dest @ p) = stat fs (dest @ p)" using np by (simp add: st1)
  have notdir: "stat fs (dest @ p) \<noteq> Some KDir"
  proof (cases force)
    case True
    with cl show ?thesis unfolding clear_def by simp
  next
    case False
    with nc show ?thesis by (simp add: conflicting_def path_exists_def)
  qed
  have nd1: "\<not> is_dir fs1 (dest @ p)" using notdir tgt by (simp add: is_dir_def)
  have "\<exists>fs2. write_file fs1 (dest @ p) c = Inr fs2"
  proof (rule write_file_succeeds)
    show "dest @ p \<noteq> []" using pne by simp
    show "stat fs1 (butlast (dest @ p)) = Some KDir" by (simp add: bl st1)
    show "stat fs1 (dest @ p) \<noteq> Some KDir" using notdir tgt by simp
  qed
  then obtain fs2 where w: "write_file fs1 (dest @ p) c = Inr fs2" by blast
  have cp: "copy2 fs1 (basename p) c (dest @ p) = Inr fs2"
    using w nd1 by (simp add: copy2_def)
  have st2: "\<And>x. stat fs2 x = (if x = dest @ p then Some (KFile c)
      else if prefix x (dest @ butlast p) then Some KDir else stat fs x)"
    using stat_write_file [OF w] st1 by simp
  have hd_not_prefix: "\<And>e. e \<in> set L \<Longrightarrow> \<not> prefix p (fst e)"
    using coherent_hd_file [OF coh] by simp
  have same: "\<And>e. e \<in> set L \<Longrightarrow> is_file (snd e) \<Longrightarrow> stat fs2 (dest @ fst e) = stat fs (dest @ fst e)"
  proof -
    fix e assume e: "e \<in> set L" "is_file (snd e)"
    have 1: "fst e \<noteq> p" using hd_not_prefix [OF e(1)] by auto
    have "\<not> prefix (fst e) p" using coherent_tl_file [OF coh e] by simp
    then have 2: "\<not> prefix (fst e) (butlast p)"
      using prefix_order.trans [OF _ prefixeq_butlast [of p]] by blast
    from 1 2 show "stat fs2 (dest @ fst e) = stat fs (dest @ fst e)" by (simp add: st2)
  qed
  have c1: "clear dest force fs2 L"
    unfolding clear_def
  proof (intro conjI ballI allI impI)
    show "stat fs2 dest = Some KDir" using pne by (simp add: st2)
  next
    fix e q k assume e: "e \<in> set L" "prefix q (fst e)" "q \<noteq> fst e \<or> \<not> is_file (snd e)"
    with cl have a: "stat fs (dest @ q) \<noteq> Some (KFile k)" unfolding clear_def by simp
    have "q \<noteq> p" using hd_not_prefix [OF e(1)] e(2) by auto
    with a show "stat fs2 (dest @ q) \<noteq> Some (KFile k)" by (simp add: st2)
  next
    fix e assume "force" "e \<in> set L" "is_file (snd e)"
    with cl same show "stat fs2 (dest @ fst e) \<noteq> Some KDir" unfolding clear_def by simp
  qed
  have c2: "\<forall>e \<in> set L. conflicting dest force fs2 e = conflicting dest force fs e"
    using same by (auto simp: conflicting_def path_exists_def)
  then have c3: "filter (conflicting dest force fs2) L = filter (conflicting dest force fs) L"
    by (intro filter_cong) auto
  have "stat fs2 (dest @ p) = Some (KFile c)" by (simp add: st2)
  with m cp c1 c2 c3 show ?thesis by blast
qed

section \<open>What the copy loop leaves alone\<close>

lemma not_prefix_butlast: "xs \<noteq> [] \<Longrightarrow> \<not> prefix xs (butlast xs)"
proof
  assume ne: "xs \<noteq> []" and pr: "prefix xs (butlast xs)"
  from pr have "length xs \<le> length (butlast xs)" by (rule prefix_length_le)
  then have "length xs \<le> length xs - 1" by (simp only: length_butlast)
  moreover from ne have "0 < length xs" by simp
  ultimately show False by arith
qed

text \<open>Whatever the loop changes lies on the way to a target, or inside a target.\<close>

lemma copy_entries_frame:
  "copy_entries dest force L fs cs = (r, fs') \<Longrightarrow> stat fs' x \<noteq> stat fs x \<Longrightarrow>
   \<exists>e \<in> set L. prefix x (dest @ fst e)
      \<or> (is_file (snd e) \<and> x = dest @ fst e @ [basename (fst e)])"
proof (induction L arbitrary: fs cs)
  case Nil
  then show ?case by simp
next
  case (Cons e L)
  obtain p n where e: "e = (p, n)" by (cases e)
  show ?case
  proof (cases n)
    case (Dir es)
    show ?thesis
    proof (cases "mkdir_p fs (dest @ p)")
      case (Inl err)
      with Cons.prems e Dir show ?thesis by simp
    next
      case (Inr fs1)
      with Cons.prems e Dir have run: "copy_entries dest force L fs1 cs = (r, fs')" by simp
      show ?thesis
      proof (cases "stat fs' x = stat fs1 x")
        case True
        with Cons.prems(2) have "stat fs1 x \<noteq> stat fs x" by simp
        then have "prefix x (dest @ p)" using stat_mkdir_p [OF Inr, of x] by (auto split: if_splits)
        then show ?thesis by (simp add: e)
      next
        case False
        with Cons.IH [OF run] show ?thesis by auto
      qed
    qed
  next
    case (File c)
    show ?thesis
    proof (cases "path_exists fs (dest @ p) \<and> \<not> force")
      case True
      with Cons.prems e File have "copy_entries dest force L fs (cs @ [p]) = (r, fs')" by simp
      from Cons.IH [OF this Cons.prems(2)] show ?thesis by auto
    next
      case False
      show ?thesis
      proof (cases "mkdir_p fs (butlast (dest @ p))")
        case (Inl err)
        with Cons.prems e File False show ?thesis by auto
      next
        case (Inr fs1)
        have c1: "stat fs1 x \<noteq> stat fs x \<Longrightarrow> prefix x (dest @ p)"
        proof -
          assume "stat fs1 x \<noteq> stat fs x"
          then have "prefix x (butlast (dest @ p))"
            using stat_mkdir_p [OF Inr, of x] by (auto split: if_splits)
          then show "prefix x (dest @ p)"
            using prefix_order.trans [OF _ prefixeq_butlast] by blast
        qed
        show ?thesis
        proof (cases "copy2 fs1 (basename p) c (dest @ p)")
          case (Inl err)
          with Cons.prems e File False Inr have "fs' = fs1" by auto
          with Cons.prems(2) c1 show ?thesis by (auto simp: e)
        next
          case fs2: (Inr fs2)
          with Cons.prems e File False Inr
          have run: "copy_entries dest force L fs2 cs = (r, fs')" by auto
          have c2: "stat fs2 x \<noteq> stat fs1 x \<Longrightarrow>
              x = dest @ p \<or> x = dest @ p @ [basename p]"
            using fs2 stat_write_file [of fs1 _ c fs2 x]
            by (auto simp: copy2_def split: if_splits)
          show ?thesis
          proof (cases "stat fs' x = stat fs2 x")
            case True
            with Cons.prems(2) have "stat fs2 x \<noteq> stat fs1 x \<or> stat fs1 x \<noteq> stat fs x" by auto
            with c1 c2 show ?thesis by (auto simp: e File)
          next
            case False
            with Cons.IH [OF run] show ?thesis by auto
          qed
        qed
      qed
    qed
  qed
qed

text \<open>A directory of the destination stays a directory.\<close>

lemma copy_entries_keeps_dirs:
  "copy_entries dest force L fs cs = (r, fs') \<Longrightarrow> stat fs x = Some KDir \<Longrightarrow>
   stat fs' x = Some KDir"
proof (induction L arbitrary: fs cs)
  case Nil
  then show ?case by simp
next
  case (Cons e L)
  obtain p n where e: "e = (p, n)" by (cases e)
  show ?case
  proof (cases n)
    case (Dir es)
    show ?thesis
    proof (cases "mkdir_p fs (dest @ p)")
      case (Inl err)
      with Cons.prems e Dir show ?thesis by simp
    next
      case (Inr fs1)
      with Cons.prems e Dir have run: "copy_entries dest force L fs1 cs = (r, fs')" by simp
      have "stat fs1 x = Some KDir" using stat_mkdir_p [OF Inr, of x] Cons.prems(2) by simp
      with Cons.IH [OF run] show ?thesis .
    qed
  next
    case (File c)
    show ?thesis
    proof (cases "path_exists fs (dest @ p) \<and> \<not> force")
      case True
      with Cons.prems e File have "copy_entries dest force L fs (cs @ [p]) = (r, fs')" by simp
      from Cons.IH [OF this Cons.prems(2)] show ?thesis .
    next
      case False
      show ?thesis
      proof (cases "mkdir_p fs (butlast (dest @ p))")
        case (Inl err)
        with Cons.prems e File False show ?thesis by auto
      next
        case (Inr fs1)
        have d1: "stat fs1 x = Some KDir"
          using stat_mkdir_p [OF Inr, of x] Cons.prems(2) by simp
        show ?thesis
        proof (cases "copy2 fs1 (basename p) c (dest @ p)")
          case (Inl err)
          with Cons.prems e File False Inr have "fs' = fs1" by auto
          with d1 show ?thesis by simp
        next
          case fs2: (Inr fs2)
          with Cons.prems e File False Inr
          have run: "copy_entries dest force L fs2 cs = (r, fs')" by auto
          obtain y where w: "write_file fs1 y c = Inr fs2"
            using fs2 by (auto simp: copy2_def)
          have "x \<noteq> y" using write_file_not_dir [OF w] d1 by auto
          then have "stat fs2 x = Some KDir" using stat_write_file [OF w, of x] d1 by simp
          with Cons.IH [OF run] show ?thesis .
        qed
      qed
    qed
  qed
qed

text \<open>Without \<open>force\<close>, nothing that exists in the destination is changed.\<close>

lemma copy_entries_no_overwrite:
  "copy_entries dest False L fs cs = (r, fs') \<Longrightarrow> stat fs x \<noteq> None \<Longrightarrow>
   stat fs' x = stat fs x"
proof (induction L arbitrary: fs cs)
  case Nil
  then show ?case by simp
next
  case (Cons e L)
  obtain p n where e: "e = (p, n)" by (cases e)
  have keep: "\<And>t q t'. mkdir_p t q = Inr t' \<Longrightarrow> stat t x \<noteq> None \<Longrightarrow> stat t' x = stat t x"
  proof -
    fix t q t' assume m: "mkdir_p t q = Inr t'" and ex: "stat t x \<noteq> None"
    show "stat t' x = stat t x"
    proof (cases "prefix x q")
      case True
      from ex obtain k where k: "stat t x = Some k" by auto
      with mkdir_p_prefix_not_file [OF m True] have "k = KDir" by (cases k) auto
      with k True show ?thesis using stat_mkdir_p [OF m, of x] by simp
    next
      case False
      then show ?thesis using stat_mkdir_p [OF m, of x] by simp
    qed
  qed
  show ?case
  proof (cases n)
    case (Dir es)
    show ?thesis
    proof (cases "mkdir_p fs (dest @ p)")
      case (Inl err)
      with Cons.prems e Dir show ?thesis by simp
    next
      case (Inr fs1)
      with Cons.prems e Dir have run: "copy_entries dest False L fs1 cs = (r, fs')" by simp
      have s1: "stat fs1 x = stat fs x" using keep [OF Inr Cons.prems(2)] .
      with Cons.IH [OF run] Cons.prems(2) show ?thesis by simp
    qed
  next
    case (File c)
    show ?thesis
    proof (cases "path_exists fs (dest @ p)")
      case True
      with Cons.prems e File have "copy_entries dest False L fs (cs @ [p]) = (r, fs')" by simp
      from Cons.IH [OF this Cons.prems(2)] show ?thesis .
    next
      case False
      show ?thesis
      proof (cases "mkdir_p fs (butlast (dest @ p))")
        case (Inl err)
        with Cons.prems e File False show ?thesis by auto
      next
        case (Inr fs1)
        have s1: "stat fs1 x = stat fs x" using keep [OF Inr Cons.prems(2)] .
        show ?thesis
        proof (cases "copy2 fs1 (basename p) c (dest @ p)")
          case (Inl err)
          with Cons.prems e File False Inr have "fs' = fs1" by auto
          with s1 show ?thesis by simp
        next
          case fs2: (Inr fs2)
          with Cons.prems e File False Inr
          have run: "copy_entries dest False L fs2 cs = (r, fs')" by auto
          have absent: "stat fs (dest @ p) = None" using False by (simp add: path_exists_def)
          have "dest @ p \<noteq> []"
            using Inr absent by (cases "dest @ p") (auto simp: stat_def)
          then have "\<not> prefix (dest @ p) (butlast (dest @ p))"
            by (rule not_prefix_butlast)
          then have "stat fs1 (dest @ p) = None"
            using stat_mkdir_p [OF Inr, of "dest @ p"] absent by simp
          then have w: "write_file fs1 (dest @ p) c = Inr fs2"
            using fs2 by (simp add: copy2_def is_dir_def)
          have "x \<noteq> dest @ p" using absent Cons.prems(2) by auto
          then have "stat fs2 x = stat fs x" using stat_write_file [OF w, of x] s1 by simp
          with Cons.IH [OF run] Cons.prems(2) show ?thesis by simp
        qed
      qed
    qed
  qed
qed

section \<open>The copy loop on a destination that does not clash\<close>

lemma clear_tl: "clear dest force fs (e # L) \<Longrightarrow> clear dest force fs L"
  by (simp add: clear_def)

lemma copy_entries_ok:
  assumes "coherent L" "clear dest force fs L"
  shows "\<exists>fs'. copy_entries dest force L fs cs =
            (Inr (cs @ map fst (filter (conflicting dest force fs) L)), fs')
     \<and> (\<forall>e \<in> set L. is_file (snd e) \<longrightarrow> \<not> conflicting dest force fs e \<longrightarrow>
            stat fs' (dest @ fst e) = Some (kind_of (snd e)))
     \<and> (\<forall>e \<in> set L. \<not> is_file (snd e) \<longrightarrow> stat fs' (dest @ fst e) = Some KDir)"
  using assms
proof (induction L arbitrary: fs cs)
  case Nil
  then show ?case by simp
next
  case (Cons e L)
  obtain p n where e: "e = (p, n)" by (cases e)
  note coh = Cons.prems(1) and cl = Cons.prems(2)
  have cohL: "coherent L" using coh by (rule coherent_tl)
  show ?case
  proof (cases n)
    case (Dir es)
    from step_dir [OF coh [unfolded e Dir] cl [unfolded e Dir]]
    obtain fs1 where m: "mkdir_p fs (dest @ p) = Inr fs1" and cl1: "clear dest force fs1 L"
      and f1: "filter (conflicting dest force fs1) L = filter (conflicting dest force fs) L"
      and c1: "\<forall>e \<in> set L. conflicting dest force fs1 e = conflicting dest force fs e"
      by blast
    from Cons.IH [OF cohL cl1, of cs] obtain fs' where
      r: "copy_entries dest force L fs1 cs =
            (Inr (cs @ map fst (filter (conflicting dest force fs1) L)), fs')"
      and w: "\<forall>e \<in> set L. is_file (snd e) \<longrightarrow> \<not> conflicting dest force fs1 e \<longrightarrow>
            stat fs' (dest @ fst e) = Some (kind_of (snd e))"
      and d: "\<forall>e \<in> set L. \<not> is_file (snd e) \<longrightarrow> stat fs' (dest @ fst e) = Some KDir"
      by blast
    have nce: "\<not> conflicting dest force fs e" by (simp add: conflicting_def e Dir)
    have 1: "copy_entries dest force (e # L) fs cs =
            (Inr (cs @ map fst (filter (conflicting dest force fs) (e # L))), fs')"
      using r m nce by (simp add: e Dir f1)
    have "stat fs1 (dest @ p) = Some KDir" using stat_mkdir_p [OF m, of "dest @ p"] by simp
    then have 2: "stat fs' (dest @ p) = Some KDir" using copy_entries_keeps_dirs [OF r] by blast
    have 3: "\<forall>e' \<in> set (e # L). is_file (snd e') \<longrightarrow> \<not> conflicting dest force fs e' \<longrightarrow>
            stat fs' (dest @ fst e') = Some (kind_of (snd e'))"
      using w c1 by (auto simp: e Dir)
    have 4: "\<forall>e' \<in> set (e # L). \<not> is_file (snd e') \<longrightarrow> stat fs' (dest @ fst e') = Some KDir"
      using d 2 by (auto simp: e)
    from 1 3 4 show ?thesis by blast
  next
    case (File c)
    have clL: "clear dest force fs L" using cl by (rule clear_tl)
    show ?thesis
    proof (cases "conflicting dest force fs e")
      case True
      from Cons.IH [OF cohL clL, of "cs @ [p]"] obtain fs' where
        r: "copy_entries dest force L fs (cs @ [p]) =
            (Inr ((cs @ [p]) @ map fst (filter (conflicting dest force fs) L)), fs')"
        and w: "\<forall>e \<in> set L. is_file (snd e) \<longrightarrow> \<not> conflicting dest force fs e \<longrightarrow>
            stat fs' (dest @ fst e) = Some (kind_of (snd e))"
        and d: "\<forall>e \<in> set L. \<not> is_file (snd e) \<longrightarrow> stat fs' (dest @ fst e) = Some KDir"
        by blast
      have 1: "copy_entries dest force (e # L) fs cs =
            (Inr (cs @ map fst (filter (conflicting dest force fs) (e # L))), fs')"
        using r True by (simp add: e File conflicting_def)
      have 3: "\<forall>e' \<in> set (e # L). is_file (snd e') \<longrightarrow> \<not> conflicting dest force fs e' \<longrightarrow>
            stat fs' (dest @ fst e') = Some (kind_of (snd e'))"
        using w True by auto
      have 4: "\<forall>e' \<in> set (e # L). \<not> is_file (snd e') \<longrightarrow> stat fs' (dest @ fst e') = Some KDir"
        using d by (auto simp: e File)
      from 1 3 4 show ?thesis by blast
    next
      case False
      from step_file [OF coh [unfolded e File] cl [unfolded e File] False [unfolded e File]]
      obtain fs1 fs2 where m: "mkdir_p fs (butlast (dest @ p)) = Inr fs1"
        and cp: "copy2 fs1 (basename p) c (dest @ p) = Inr fs2"
        and s2: "stat fs2 (dest @ p) = Some (KFile c)"
        and cl2: "clear dest force fs2 L"
        and f2: "filter (conflicting dest force fs2) L = filter (conflicting dest force fs) L"
        and c2: "\<forall>e \<in> set L. conflicting dest force fs2 e = conflicting dest force fs e"
        by blast
      from Cons.IH [OF cohL cl2, of cs] obtain fs' where
        r: "copy_entries dest force L fs2 cs =
              (Inr (cs @ map fst (filter (conflicting dest force fs2) L)), fs')"
        and w: "\<forall>e \<in> set L. is_file (snd e) \<longrightarrow> \<not> conflicting dest force fs2 e \<longrightarrow>
              stat fs' (dest @ fst e) = Some (kind_of (snd e))"
        and d: "\<forall>e \<in> set L. \<not> is_file (snd e) \<longrightarrow> stat fs' (dest @ fst e) = Some KDir"
        by blast
      have ne: "\<not> (path_exists fs (dest @ p) \<and> \<not> force)"
        using False by (simp add: conflicting_def e File)
      have 1: "copy_entries dest force (e # L) fs cs =
            (Inr (cs @ map fst (filter (conflicting dest force fs) (e # L))), fs')"
        using r m cp False ne by (auto simp: e File f2 Let_def)
      have 2: "stat fs' (dest @ p) = Some (KFile c)"
      proof (rule ccontr)
        assume "stat fs' (dest @ p) \<noteq> Some (KFile c)"
        then have "stat fs' (dest @ p) \<noteq> stat fs2 (dest @ p)" using s2 by simp
        from copy_entries_frame [OF r this] obtain e' where e': "e' \<in> set L"
          and alt: "prefix (dest @ p) (dest @ fst e')
            \<or> (is_file (snd e') \<and> dest @ p = dest @ fst e' @ [basename (fst e')])"
          by blast
        from alt show False
        proof
          assume "prefix (dest @ p) (dest @ fst e')"
          then have "prefix (fst e) (fst e')" by (simp add: e)
          with coherent_hd_file [OF coh _ e'] show False by (simp add: e File)
        next
          assume a: "is_file (snd e') \<and> dest @ p = dest @ fst e' @ [basename (fst e')]"
          then have "prefix (fst e') (fst e)" by (simp add: e)
          with coherent_tl_file [OF coh e'] a show False by simp
        qed
      qed
      have 3: "\<forall>e' \<in> set (e # L). is_file (snd e') \<longrightarrow> \<not> conflicting dest force fs e' \<longrightarrow>
            stat fs' (dest @ fst e') = Some (kind_of (snd e'))"
        using w c2 2 by (auto simp: e File)
      have 4: "\<forall>e' \<in> set (e # L). \<not> is_file (snd e') \<longrightarrow> stat fs' (dest @ fst e') = Some KDir"
        using d by (auto simp: e File)
      from 1 3 4 show ?thesis by blast
    qed
  qed
qed

section \<open>Copying a whole tree\<close>

lemma is_file_iff: "is_file n \<longleftrightarrow> (\<exists>c. n = File c)"
  by (cases n) auto

lemma coherent_walk: "wf_tree t \<Longrightarrow> coherent (walk t)"
  unfolding coherent_def
proof (intro conjI ballI impI)
  assume "wf_tree t"
  then show "distinct (map fst (walk t))" by (rule distinct_walk)
next
  fix e assume "e \<in> set (walk t)"
  then show "fst e \<noteq> []" using walk_nonempty [of "fst e" "snd e" t] by simp
next
  fix e e' assume wf: "wf_tree t" and e: "e \<in> set (walk t)" and e': "e' \<in> set (walk t)"
    and f: "is_file (snd e)"
  from f obtain c where "snd e = File c" by (auto simp: is_file_iff)
  with e have "(fst e, File c) \<in> set (walk t)" by (metis prod.collapse)
  moreover from e' have "(fst e', snd e') \<in> set (walk t)" by simp
  ultimately show "\<not> strict_prefix (fst e) (fst e')" using walk_file_leaf [OF wf] by blast
qed

lemma walk_ancestor:
  assumes "wf_tree t" "(p, n) \<in> set (walk t)" "prefix q p" "q \<noteq> p" "q \<noteq> []"
  shows "\<exists>es. (q, Dir es) \<in> set (walk t)"
proof -
  from assms(3,4) obtain r where r: "p = q @ r" "r \<noteq> []" by (auto simp: prefix_def)
  from assms(1,2) have "lookup t p = Some n" by (simp add: walk_iff_lookup)
  with r obtain s where s: "lookup t q = Some s" "lookup s r = Some n"
    by (auto simp: lookup_append split: option.splits)
  from r(2) s(2) obtain es where "s = Dir es" by (cases s; cases r) auto
  with s assms(1,5) show ?thesis by (auto simp: walk_iff_lookup)
qed

lemma clear_walk:
  assumes wf: "wf_tree src" and d: "stat fs dest = Some KDir"
    and dirs: "\<forall>e \<in> set (walk src). \<not> is_file (snd e) \<longrightarrow> path_exists fs (dest @ fst e) \<longrightarrow>
                 is_dir fs (dest @ fst e)"
    and files: "force \<longrightarrow> (\<forall>e \<in> set (walk src). is_file (snd e) \<longrightarrow> \<not> is_dir fs (dest @ fst e))"
  shows "clear dest force fs (walk src)"
  unfolding clear_def
proof (intro conjI ballI allI impI)
  show "stat fs dest = Some KDir" by (rule d)
next
  fix e q c
  assume e: "e \<in> set (walk src)" and q: "prefix q (fst e)" and alt: "q \<noteq> fst e \<or> \<not> is_file (snd e)"
  have dir_ok: "\<And>e'. e' \<in> set (walk src) \<Longrightarrow> \<not> is_file (snd e') \<Longrightarrow>
      stat fs (dest @ fst e') \<noteq> Some (KFile c)"
    using dirs by (auto simp: path_exists_def is_dir_def)
  show "stat fs (dest @ q) \<noteq> Some (KFile c)"
  proof (cases "q = []")
    case True
    with d show ?thesis by simp
  next
    case False
    show ?thesis
    proof (cases "q = fst e")
      case True
      with alt e dir_ok show ?thesis by auto
    next
      case ne: False
      from e have "(fst e, snd e) \<in> set (walk src)" by simp
      from walk_ancestor [OF wf this q ne False] obtain es where "(q, Dir es) \<in> set (walk src)"
        by blast
      from dir_ok [OF this] show ?thesis by simp
    qed
  qed
next
  fix e assume "force" "e \<in> set (walk src)" "is_file (snd e)"
  with files show "stat fs (dest @ fst e) \<noteq> Some KDir" by (auto simp: is_dir_def)
qed

text \<open>
  C6. Copying into a destination that holds nothing in conflict with the source: no
  source file has an existing target, and where a source directory has an existing
  target, that target is a directory. The destination itself is a directory (\<open>run\<close>
  has made it), and the source tree lists no name twice in a directory. Then, with or
  without \<open>force\<close>, the copy returns normally, the loop ends with an empty conflict
  list, every file below the source root is found with the same bytes at the same
  relative path below the destination, and every directory below the source root is a
  directory there.
\<close>

theorem copy_tree_without_conflicts:
  assumes wf: "wf_tree src" and d: "is_dir fs dest"
    and none: "\<forall>e \<in> set (walk src).
        if is_file (snd e) then \<not> path_exists fs (dest @ fst e)
        else path_exists fs (dest @ fst e) \<longrightarrow> is_dir fs (dest @ fst e)"
  shows "\<exists>fs'. copy_tree src dest force fs = (Inr (), fs')
     \<and> copy_entries dest force (walk src) fs [] = (Inr [], fs')
     \<and> (\<forall>p c. p \<noteq> [] \<longrightarrow> lookup src p = Some (File c) \<longrightarrow>
            stat fs' (dest @ p) = Some (KFile c))
     \<and> (\<forall>p es. p \<noteq> [] \<longrightarrow> lookup src p = Some (Dir es) \<longrightarrow> is_dir fs' (dest @ p))"
proof -
  have cl: "clear dest force fs (walk src)"
  proof (rule clear_walk [OF wf])
    show "stat fs dest = Some KDir" using d by (simp add: is_dir_def)
    show "\<forall>e \<in> set (walk src). \<not> is_file (snd e) \<longrightarrow> path_exists fs (dest @ fst e) \<longrightarrow>
                 is_dir fs (dest @ fst e)"
      using none by auto
    show "force \<longrightarrow> (\<forall>e \<in> set (walk src). is_file (snd e) \<longrightarrow> \<not> is_dir fs (dest @ fst e))"
      using none by (auto simp: is_dir_def path_exists_def)
  qed
  have nc: "filter (conflicting dest force fs) (walk src) = []"
    using none by (auto simp: conflicting_def filter_empty_conv)
  from copy_entries_ok [OF coherent_walk [OF wf] cl, of "[]"] obtain fs' where
    r: "copy_entries dest force (walk src) fs [] = (Inr [], fs')"
    and w: "\<forall>e \<in> set (walk src). is_file (snd e) \<longrightarrow> \<not> conflicting dest force fs e \<longrightarrow>
            stat fs' (dest @ fst e) = Some (kind_of (snd e))"
    and dd: "\<forall>e \<in> set (walk src). \<not> is_file (snd e) \<longrightarrow> stat fs' (dest @ fst e) = Some KDir"
    unfolding nc by auto
  have 1: "copy_tree src dest force fs = (Inr (), fs')" by (simp add: copy_tree_def r)
  have 2: "\<forall>p c. p \<noteq> [] \<longrightarrow> lookup src p = Some (File c) \<longrightarrow>
            stat fs' (dest @ p) = Some (KFile c)"
  proof (intro allI impI)
    fix p c assume "p \<noteq> []" "lookup src p = Some (File c)"
    then have e: "(p, File c) \<in> set (walk src)" using wf by (simp add: walk_iff_lookup)
    moreover have "\<not> conflicting dest force fs (p, File c)"
      using none e by (auto simp: conflicting_def)
    ultimately show "stat fs' (dest @ p) = Some (KFile c)" using w by fastforce
  qed
  have 3: "\<forall>p es. p \<noteq> [] \<longrightarrow> lookup src p = Some (Dir es) \<longrightarrow> is_dir fs' (dest @ p)"
  proof (intro allI impI)
    fix p es assume "p \<noteq> []" "lookup src p = Some (Dir es)"
    then have "(p, Dir es) \<in> set (walk src)" using wf by (simp add: walk_iff_lookup)
    with dd show "is_dir fs' (dest @ p)" by (fastforce simp: is_dir_def)
  qed
  from 1 r 2 3 show ?thesis by blast
qed

lemmas fs_eval = stat_def path_exists_def is_dir_def copy_tree_def copy2_def basename_def
  conflicting_def Let_def

theorem copy_tree_without_conflicts_witness:
  "wf_tree source_a \<and> is_dir fs_fresh dest_proj
   \<and> copy_tree source_a dest_proj False fs_fresh =
       (Inr (),
        Dir [(''home'', Dir [(''proj'',
          Dir [(''notes.txt'', File ''mine''), (''README.md'', File ''readme''),
               (''docs'', Dir [(''guide.md'', File ''guide'')])])])])
   \<and> copy_entries dest_proj False (walk source_a) fs_fresh [] =
       (Inr [],
        Dir [(''home'', Dir [(''proj'',
          Dir [(''notes.txt'', File ''mine''), (''README.md'', File ''readme''),
               (''docs'', Dir [(''guide.md'', File ''guide'')])])])])"
proof -
  have 1: "wf_tree source_a" by (simp add: source_a_def)
  have 2: "is_dir fs_fresh dest_proj" by (simp add: fs_fresh_def dest_proj_def fs_eval)
  have 3: "\<forall>e \<in> set (walk source_a).
        if is_file (snd e) then \<not> path_exists fs_fresh (dest_proj @ fst e)
        else path_exists fs_fresh (dest_proj @ fst e) \<longrightarrow> is_dir fs_fresh (dest_proj @ fst e)"
    by (simp add: source_a_def fs_fresh_def dest_proj_def fs_eval)
  have 4: "copy_tree source_a dest_proj False fs_fresh =
       (Inr (),
        Dir [(''home'', Dir [(''proj'',
          Dir [(''notes.txt'', File ''mine''), (''README.md'', File ''readme''),
               (''docs'', Dir [(''guide.md'', File ''guide'')])])])])"
    by (simp add: source_a_def fs_fresh_def dest_proj_def fs_eval)
  from copy_tree_without_conflicts [OF 1 2 3, of False] 1 2 4 show ?thesis by auto
qed

section \<open>The command, step by step\<close>

lemma run_mkdir_fails:
  "mkdir_p (files st) (arg_dest a) = Inl e \<Longrightarrow> run a w st = (Inl e, st)"
  by (simp add: run_def Let_def)

lemma run_resolve_fails:
  assumes "mkdir_p (files st) (arg_dest a) = Inr fs1"
    and "resolve_source w (requested_version a) (requests st) = (Inl (RuntimeError m), log)"
  shows "run a w st =
     (Inr 1, st\<lparr>files := fs1, requests := log, printed := printed st @ [ResolveFailed m]\<rparr>)"
  using assms by (simp add: run_def Let_def)

lemma run_resolve_raises:
  assumes "mkdir_p (files st) (arg_dest a) = Inr fs1"
    and "resolve_source w (requested_version a) (requests st) = (Inl e, log)"
    and "\<forall>m. e \<noteq> RuntimeError m"
  shows "run a w st = (Inl e, st\<lparr>files := fs1, requests := log\<rparr>)"
  using assms by (cases e) (simp_all add: run_def Let_def)

lemma run_missing_zipball:
  assumes "mkdir_p (files st) (arg_dest a) = Inr fs1"
    and "resolve_source w (requested_version a) (requests st) = (Inr src, log)"
    and "\<not> truthy (zipball_url src)"
  shows "run a w st =
     (Inr 1, st\<lparr>files := fs1, requests := log, printed := printed st @ [MissingZipball]\<rparr>)"
  using assms by (simp add: run_def Let_def)

text \<open>The state in which \<open>run\<close> calls \<open>_download_and_extract\<close>, and the one it leaves behind.\<close>

lemma run_download:
  assumes "mkdir_p (files st) (arg_dest a) = Inr fs1"
    and "resolve_source w (requested_version a) (requests st) = (Inr src, log)"
    and "truthy (zipball_url src)"
    and "st3 = st\<lparr>files := fs1, requests := log,
                 printed := printed st @
                   [Repo REPO_URL, Origin (source_type src),
                    Version (py_or (tag_name src) (JStr (requested_version a))),
                    Target (arg_dest a)]\<rparr>"
  shows "run a w st =
     (case download_and_extract w (zipball_url src) (arg_dest a) (arg_force a) st3 of
        (Inl (RuntimeError m), st4) \<Rightarrow> (Inr 1, st4\<lparr>printed := printed st4 @ [InitFailed m]\<rparr>)
      | (Inl e, st4) \<Rightarrow> (Inl e, st4)
      | (Inr u, st4) \<Rightarrow> (Inr 0, st4\<lparr>printed := printed st4 @ [Done]\<rparr>))"
  using assms by (simp add: run_def Let_def)

lemma copy_tree_keeps_dirs:
  "copy_tree root dest force fs = (r, fs') \<Longrightarrow> stat fs x = Some KDir \<Longrightarrow> stat fs' x = Some KDir"
proof -
  assume c: "copy_tree root dest force fs = (r, fs')" and x: "stat fs x = Some KDir"
  obtain r0 fs0 where r0: "copy_entries dest force (walk root) fs [] = (r0, fs0)"
    by (cases "copy_entries dest force (walk root) fs []")
  with c have "fs' = fs0" by (auto simp: copy_tree_def split: sum.splits if_splits)
  with copy_entries_keeps_dirs [OF r0 x] show ?thesis by simp
qed

lemma download_and_extract_keeps_dirs:
  "download_and_extract w u dest force st = (r, st') \<Longrightarrow> stat (files st) x = Some KDir \<Longrightarrow>
   stat (files st') x = Some KDir"
proof -
  assume d: "download_and_extract w u dest force st = (r, st')" and x: "stat (files st) x = Some KDir"
  show ?thesis
  proof (cases "stage w u")
    case (Inl e)
    with d x show ?thesis by (auto simp: download_and_extract_def Let_def)
  next
    case (Inr root)
    obtain r1 fs1 where c: "copy_tree root dest force (files st) = (r1, fs1)"
      by (cases "copy_tree root dest force (files st)")
    with d Inr have "files st' = fs1" by (auto simp: download_and_extract_def Let_def)
    with copy_tree_keeps_dirs [OF c x] show ?thesis by simp
  qed
qed

lemma run_keeps_destination:
  assumes mk: "mkdir_p (files st) (arg_dest a) = Inr fs1"
  shows "is_dir (files (snd (run a w st))) (arg_dest a)"
proof -
  have d1: "stat fs1 (arg_dest a) = Some KDir" using stat_mkdir_p [OF mk, of "arg_dest a"] by simp
  obtain r log where rs: "resolve_source w (requested_version a) (requests st) = (r, log)"
    by (cases "resolve_source w (requested_version a) (requests st)")
  show ?thesis
  proof (cases r)
    case (Inl e)
    show ?thesis
    proof (cases "\<exists>m. e = RuntimeError m")
      case True
      then obtain m where "e = RuntimeError m" by blast
      with run_resolve_fails [OF mk] rs Inl d1 show ?thesis by (simp add: is_dir_def)
    next
      case False
      with run_resolve_raises [OF mk] rs Inl d1 show ?thesis by (simp add: is_dir_def)
    qed
  next
    case (Inr src)
    show ?thesis
    proof (cases "truthy (zipball_url src)")
      case False
      with run_missing_zipball [OF mk] rs Inr d1 show ?thesis by (simp add: is_dir_def)
    next
      case True
      define st3 where "st3 = st\<lparr>files := fs1, requests := log,
                 printed := printed st @
                   [Repo REPO_URL, Origin (source_type src),
                    Version (py_or (tag_name src) (JStr (requested_version a))),
                    Target (arg_dest a)]\<rparr>"
      obtain r4 st4 where de:
        "download_and_extract w (zipball_url src) (arg_dest a) (arg_force a) st3 = (r4, st4)"
        by (cases "download_and_extract w (zipball_url src) (arg_dest a) (arg_force a) st3")
      have "stat (files st3) (arg_dest a) = Some KDir" using d1 by (simp add: st3_def)
      from download_and_extract_keeps_dirs [OF de this]
      have d4: "stat (files st4) (arg_dest a) = Some KDir" .
      have rs': "resolve_source w (requested_version a) (requests st) = (Inr src, log)"
        using rs Inr by simp
      have "files (snd (run a w st)) = files st4"
        using run_download [OF mk rs' True st3_def] de
        by (auto split: sum.splits exn.splits)
      with d4 show ?thesis by (simp add: is_dir_def)
    qed
  qed
qed

text \<open>
  C9. \<open>run\<close> creates the destination directory, with its parents, before it resolves
  the version. Whenever that creation succeeds, the destination is a directory in the
  state \<open>run\<close> leaves behind, whatever the outcome, and so is every ancestor of it once
  it is created. In particular, when resolution fails with a \<open>RuntimeError\<close>, \<open>run\<close>
  returns exit code 1, the only change to the file system is the created destination,
  and no download has been started. (When the creation raises, because the destination
  or one of its ancestors is a regular file, the exception leaves \<open>run\<close> before any
  request, as \<open>run_mkdir_fails\<close> says.)
\<close>

theorem destination_created_before_resolution:
  assumes mk: "mkdir_p (files st) (arg_dest a) = Inr fs1"
  shows "is_dir (files (snd (run a w st))) (arg_dest a)
     \<and> (\<forall>q. prefix q (arg_dest a) \<longrightarrow> is_dir fs1 q)
     \<and> (\<forall>m log. resolve_source w (requested_version a) (requests st) = (Inl (RuntimeError m), log) \<longrightarrow>
          run a w st =
            (Inr 1, st\<lparr>files := fs1, requests := log,
                        printed := printed st @ [ResolveFailed m]\<rparr>)
          \<and> downloads (snd (run a w st)) = downloads st)"
proof (intro conjI allI impI)
  show "is_dir (files (snd (run a w st))) (arg_dest a)" using mk by (rule run_keeps_destination)
next
  fix q assume "prefix q (arg_dest a)"
  then show "is_dir fs1 q" using stat_mkdir_p [OF mk, of q] by (simp add: is_dir_def)
next
  fix m log
  assume rs: "resolve_source w (requested_version a) (requests st) = (Inl (RuntimeError m), log)"
  show r: "run a w st =
            (Inr 1, st\<lparr>files := fs1, requests := log,
                        printed := printed st @ [ResolveFailed m]\<rparr>)"
    using mk rs by (rule run_resolve_fails)
  show "downloads (snd (run a w st)) = downloads st" by (simp add: r)
qed

text \<open>
  C10. When the resolved source descriptor has no usable \<open>zipball_url\<close> (it is \<open>None\<close>,
  empty, or otherwise false), \<open>run\<close> prints the missing-link message and returns exit
  code 1; the list of downloads is unchanged, so no download or extraction was
  attempted. Resolution is reached once the destination directory is there, hence the
  first assumption. The example below gets such a descriptor from the ``latest tag''
  path, which takes the tag entry's \<open>zipball_url\<close> as it is.
\<close>

theorem missing_zipball_url_stops_before_download:
  assumes "mkdir_p (files st) (arg_dest a) = Inr fs1"
    and "resolve_source w (requested_version a) (requests st) = (Inr src, log)"
    and "\<not> truthy (zipball_url src)"
  shows "run a w st =
     (Inr 1, st\<lparr>files := fs1, requests := log, printed := printed st @ [MissingZipball]\<rparr>)
     \<and> downloads (snd (run a w st)) = downloads st"
  using run_missing_zipball [OF assms] by simp

section \<open>The staged tree\<close>

lemma set_update_subset: "set (AList.update n v es) \<subseteq> insert (n, v) (set es)"
  by (induction es) auto

lemma wf_tree_Dir_update:
  assumes "wf_tree (Dir es)" "wf_tree ch"
  shows "wf_tree (Dir (AList.update n ch es))"
proof -
  from assms(1) have d: "distinct (map fst es)" and w: "\<And>e. e \<in> set es \<Longrightarrow> wf_tree (snd e)"
    by simp_all
  have 1: "distinct (map fst (AList.update n ch es))" using d by (rule distinct_update)
  have 2: "\<And>e. e \<in> set (AList.update n ch es) \<Longrightarrow> wf_tree (snd e)"
  proof -
    fix e assume "e \<in> set (AList.update n ch es)"
    with set_update_subset [of n ch es] have "e = (n, ch) \<or> e \<in> set es" by blast
    with w [of e] assms(2) show "wf_tree (snd e)" by auto
  qed
  from 1 2 show ?thesis by simp
qed

lemma wf_tree_child:
  assumes "wf_tree (Dir es)" "map_of es n = Some ch"
  shows "wf_tree ch"
proof -
  from assms(2) have "(n, ch) \<in> set es" by (rule map_of_SomeD)
  with assms(1) have "wf_tree (snd (n, ch))" by (simp del: snd_conv)
  then show ?thesis by simp
qed

lemma mkdir_p_wf: "mkdir_p t p = Inr t' \<Longrightarrow> wf_tree t \<Longrightarrow> wf_tree t'"
proof (induction t p arbitrary: t' rule: mkdir_p.induct)
  case (4 es n p)
  define ch0 where "ch0 = (case map_of es n of None \<Rightarrow> Dir [] | Some ch \<Rightarrow> ch)"
  from "4.prems" obtain ch' where ch': "mkdir_p ch0 p = Inr ch'"
    and t': "t' = Dir (AList.update n ch' es)"
    by (auto simp: ch0_def split: sum.splits)
  have "wf_tree ch0"
  proof (cases "map_of es n")
    case None
    then show ?thesis by (simp add: ch0_def)
  next
    case (Some ch)
    with wf_tree_child [OF "4.prems"(2) Some] show ?thesis by (simp add: ch0_def)
  qed
  with "4.IH" ch' have "wf_tree ch'" unfolding ch0_def by blast
  with "4.prems"(2) show ?case unfolding t' by (rule wf_tree_Dir_update)
qed simp_all

lemma write_file_wf: "write_file t p c = Inr t' \<Longrightarrow> wf_tree t \<Longrightarrow> wf_tree t'"
proof (induction t p c arbitrary: t' rule: write_file.induct)
  case (1 old c)
  then show ?case by auto
next
  case (2 es c)
  then show ?case by simp
next
  case (3 old n p c)
  then show ?case by simp
next
  case (4 es n p c)
  show ?case
  proof (cases "map_of es n")
    case None
    with "4.prems"(1) have "t' = Dir (AList.update n (File c) es)"
      by (cases "p = []") simp_all
    with "4.prems"(2) show ?thesis using wf_tree_Dir_update [of es "File c" n] by simp
  next
    case (Some ch)
    with "4.prems"(1) obtain ch' where ch': "write_file ch p c = Inr ch'"
      and t': "t' = Dir (AList.update n ch' es)"
      by (cases "write_file ch p c") auto
    have "wf_tree ch" using "4.prems"(2) Some by (rule wf_tree_child)
    with "4.IH" Some ch' have "wf_tree ch'" by blast
    with "4.prems"(2) show ?thesis unfolding t' by (rule wf_tree_Dir_update)
  qed
qed

lemma extract_member_unfold:
  "extract_member t name data =
     (if arcname name = [] \<and> \<not> member_is_dir name then Inl (OtherException ''ValueError'')
      else
        (case (if path_exists t (butlast (arcname name)) then Inr t
               else mkdir_p t (butlast (arcname name))) of
           Inl e \<Rightarrow> Inl e
         | Inr st \<Rightarrow>
             if member_is_dir name
             then (if is_dir st (arcname name) then Inr st else mkdir_p st (arcname name))
             else write_file st (arcname name) data))"
  by (simp add: extract_member_def Let_def)

lemma extract_member_wf:
  assumes "extract_member t name data = Inr t'" "wf_tree t"
  shows "wf_tree t'"
proof -
  define up where "up = (if path_exists t (butlast (arcname name)) then Inr t
               else mkdir_p t (butlast (arcname name)))"
  have e: "extract_member t name data =
     (if arcname name = [] \<and> \<not> member_is_dir name then Inl (OtherException ''ValueError'')
      else
        (case up of
           Inl e \<Rightarrow> Inl e
         | Inr st \<Rightarrow>
             if member_is_dir name
             then (if is_dir st (arcname name) then Inr st else mkdir_p st (arcname name))
             else write_file st (arcname name) data))"
    unfolding up_def by (rule extract_member_unfold)
  show ?thesis
  proof (cases up)
    case (Inl err)
    with assms(1) e show ?thesis by (simp split: if_splits)
  next
    case (Inr st)
    have wst: "wf_tree st"
    proof (cases "path_exists t (butlast (arcname name))")
      case True
      with Inr assms(2) show ?thesis by (simp add: up_def)
    next
      case False
      with Inr have "mkdir_p t (butlast (arcname name)) = Inr st" by (simp add: up_def)
      from mkdir_p_wf [OF this assms(2)] show ?thesis .
    qed
    show ?thesis
    proof (cases "member_is_dir name")
      case True
      show ?thesis
      proof (cases "is_dir st (arcname name)")
        case d: True
        with True Inr assms(1) e have "t' = st" by (simp split: if_splits)
        with wst show ?thesis by simp
      next
        case d: False
        with True Inr assms(1) e have "mkdir_p st (arcname name) = Inr t'"
          by (simp split: if_splits)
        from mkdir_p_wf [OF this wst] show ?thesis .
      qed
    next
      case False
      with Inr assms(1) e have "write_file st (arcname name) data = Inr t'"
        by (simp split: if_splits)
      from write_file_wf [OF this wst] show ?thesis .
    qed
  qed
qed

lemma extract_all_wf:
  "extract_all entries names t = Inr t' \<Longrightarrow> wf_tree t \<Longrightarrow> wf_tree t'"
proof (induction names arbitrary: t)
  case Nil
  then show ?case by simp
next
  case (Cons name names)
  from Cons.prems(1) obtain st where
    m: "extract_member t name (member_data entries name) = Inr st"
    and r: "extract_all entries names st = Inr t'"
    by (cases "extract_member t name (member_data entries name)") auto
  from extract_member_wf [OF m Cons.prems(2)] Cons.IH [OF r] show ?case by blast
qed

lemma lookup_wf: "lookup t p = Some s \<Longrightarrow> wf_tree t \<Longrightarrow> wf_tree s"
proof (induction t p arbitrary: s rule: lookup.induct)
  case (3 es n p)
  from "3.prems"(1) obtain ch where ch: "map_of es n = Some ch" and l: "lookup ch p = Some s"
    by (cases "map_of es n") auto
  from wf_tree_child [OF "3.prems"(2) ch] "3.IH" [OF ch l] show ?case by blast
qed auto

lemma stage_InrD:
  assumes "stage w u = Inr root"
  shows "\<exists>raw entries root_name staging.
      extract_all entries (map fst entries) (Dir [(''source.zip'', File raw)]) = Inr staging
      \<and> source_root w staging root_name = Some root"
proof (cases "download_file w u")
  case (Inl e)
  with assms show ?thesis by (simp add: stage_def)
next
  case (Inr rm)
  obtain raw members where rm: "rm = (raw, members)" by (cases rm)
  show ?thesis
  proof (cases members)
    case None
    with assms Inr rm show ?thesis by (simp add: stage_def)
  next
    case (Some entries)
    show ?thesis
    proof (cases "detect_root_folder (map fst entries)")
      case (Inl e)
      with assms Inr rm Some show ?thesis by (simp add: stage_def)
    next
      case root_name: (Inr root_name)
      show ?thesis
      proof (cases "extract_all entries (map fst entries) (Dir [(''source.zip'', File raw)])")
        case (Inl e)
        with assms Inr rm Some root_name show ?thesis by (simp add: stage_def)
      next
        case staging: (Inr staging)
        show ?thesis
        proof (cases "source_root w staging root_name")
          case None
          with assms Inr rm Some root_name staging show ?thesis by (simp add: stage_def)
        next
          case sr: (Some r)
          with assms Inr rm Some root_name staging have "r = root" by (simp add: stage_def)
          with staging sr show ?thesis by blast
        qed
      qed
    qed
  qed
qed

lemma source_root_cases:
  assumes "source_root w staging r = Some root"
  shows "root = staging \<or> root = Dir (AList.update (tmp_name w) staging (tmp_siblings w))
     \<or> lookup staging [r] = Some root"
proof -
  define a where "a \<longleftrightarrow> r = [] \<or> r = ''.''"
  define b where "b \<longleftrightarrow> r = ''..''"
  have "source_root w staging r =
      (if a then Some staging
       else if b then Some (Dir (AList.update (tmp_name w) staging (tmp_siblings w)))
       else lookup staging [r])"
    unfolding source_root_def a_def b_def ..
  with assms show ?thesis by (cases a; cases b) simp_all
qed

text \<open>
  The tree found at the source root lists no name twice, as long as the directory
  that holds the temporary directory does not. So the assumption \<open>wf_tree root\<close> of the
  theorems below holds for every tree the program copies from.
\<close>

lemma stage_wf:
  assumes "stage w u = Inr root" "wf_tree (Dir (tmp_siblings w))"
  shows "wf_tree root"
proof -
  from stage_InrD [OF assms(1)] obtain raw entries root_name staging where
    ex: "extract_all entries (map fst entries) (Dir [(''source.zip'', File raw)]) = Inr staging"
    and sr: "source_root w staging root_name = Some root"
    by blast
  have st: "wf_tree staging" using extract_all_wf [OF ex] by simp
  from source_root_cases [OF sr] consider "root = staging"
    | "root = Dir (AList.update (tmp_name w) staging (tmp_siblings w))"
    | "lookup staging [root_name] = Some root"
    by blast
  then show ?thesis
  proof cases
    case 1
    with st show ?thesis by simp
  next
    case 2
    with wf_tree_Dir_update [OF assms(2) st] show ?thesis by (simp only:)
  next
    case 3
    from lookup_wf [OF this st] show ?thesis .
  qed
qed

section \<open>The command with a copy\<close>

lemma run_copy:
  assumes mk: "mkdir_p (files st) (arg_dest a) = Inr fs1"
    and rs: "resolve_source w (requested_version a) (requests st) = (Inr src, log)"
    and zu: "truthy (zipball_url src)"
    and sg: "stage w (zipball_url src) = Inr root"
    and cp: "copy_tree root (arg_dest a) (arg_force a) fs1 = (r, fs')"
    and st4: "st4 = st\<lparr>files := fs', requests := log,
                 downloads := downloads st @ [zipball_url src],
                 printed := printed st @
                   [Repo REPO_URL, Origin (source_type src),
                    Version (py_or (tag_name src) (JStr (requested_version a))),
                    Target (arg_dest a)]\<rparr>"
  shows "run a w st =
     (case r of
        Inl (RuntimeError m) \<Rightarrow> (Inr 1, st4\<lparr>printed := printed st4 @ [InitFailed m]\<rparr>)
      | Inl e \<Rightarrow> (Inl e, st4)
      | Inr u \<Rightarrow> (Inr 0, st4\<lparr>printed := printed st4 @ [Done]\<rparr>))"
proof -
  define st3 where "st3 = st\<lparr>files := fs1, requests := log,
                 printed := printed st @
                   [Repo REPO_URL, Origin (source_type src),
                    Version (py_or (tag_name src) (JStr (requested_version a))),
                    Target (arg_dest a)]\<rparr>"
  have "download_and_extract w (zipball_url src) (arg_dest a) (arg_force a) st3 = (r, st4)"
    using sg cp by (simp add: download_and_extract_def Let_def st3_def st4)
  with run_download [OF mk rs zu st3_def] show ?thesis by simp
qed

text \<open>The copy without \<open>force\<close> into a destination that has some of the files.\<close>

lemma copy_tree_conflicts:
  assumes wf: "wf_tree root" and d: "is_dir fs dest"
    and dirs: "\<forall>e \<in> set (walk root). \<not> is_file (snd e) \<longrightarrow> path_exists fs (dest @ fst e) \<longrightarrow>
                 is_dir fs (dest @ fst e)"
    and some: "\<exists>e \<in> set (walk root). is_file (snd e) \<and> path_exists fs (dest @ fst e)"
    and cs: "cs = map fst (filter (conflicting dest False fs) (walk root))"
  shows "\<exists>fs'. copy_tree root dest False fs = (Inl (RuntimeError (conflict_message cs)), fs')
     \<and> (\<forall>p c. p \<noteq> [] \<longrightarrow> lookup root p = Some (File c) \<longrightarrow> \<not> path_exists fs (dest @ p) \<longrightarrow>
            stat fs' (dest @ p) = Some (KFile c))
     \<and> (\<forall>x. path_exists fs x \<longrightarrow> stat fs' x = stat fs x)"
proof -
  have cl: "clear dest False fs (walk root)"
    using clear_walk [OF wf _ dirs, of False] d by (simp add: is_dir_def)
  from copy_entries_ok [OF coherent_walk [OF wf] cl, of "[]"] obtain fs' where
    r: "copy_entries dest False (walk root) fs [] = (Inr cs, fs')"
    and w: "\<forall>e \<in> set (walk root). is_file (snd e) \<longrightarrow> \<not> conflicting dest False fs e \<longrightarrow>
            stat fs' (dest @ fst e) = Some (kind_of (snd e))"
    unfolding cs by auto
  from some obtain e where "e \<in> set (walk root)" "conflicting dest False fs e"
    by (auto simp: conflicting_def)
  then have "cs \<noteq> []" unfolding cs by (auto simp: filter_empty_conv)
  then have 1: "copy_tree root dest False fs = (Inl (RuntimeError (conflict_message cs)), fs')"
    by (simp add: copy_tree_def r)
  have 2: "\<forall>p c. p \<noteq> [] \<longrightarrow> lookup root p = Some (File c) \<longrightarrow> \<not> path_exists fs (dest @ p) \<longrightarrow>
            stat fs' (dest @ p) = Some (KFile c)"
  proof (intro allI impI)
    fix p c assume "p \<noteq> []" "lookup root p = Some (File c)" and ne: "\<not> path_exists fs (dest @ p)"
    then have e: "(p, File c) \<in> set (walk root)" using wf by (simp add: walk_iff_lookup)
    moreover have "\<not> conflicting dest False fs (p, File c)" using ne by (simp add: conflicting_def)
    ultimately show "stat fs' (dest @ p) = Some (KFile c)" using w by fastforce
  qed
  have 3: "\<forall>x. path_exists fs x \<longrightarrow> stat fs' x = stat fs x"
    using copy_entries_no_overwrite [OF r] by (simp add: path_exists_def)
  from 1 2 3 show ?thesis by blast
qed

lemma conflicts_set:
  assumes wf: "wf_tree root"
  shows "set (map fst (filter (conflicting dest False fs) (walk root))) =
     {p. p \<noteq> [] \<and> (\<exists>c. lookup root p = Some (File c)) \<and> path_exists fs (dest @ p)}"
proof (rule set_eqI)
  fix p
  have "p \<in> set (map fst (filter (conflicting dest False fs) (walk root))) \<longleftrightarrow>
        (\<exists>n. (p, n) \<in> set (walk root) \<and> is_file n \<and> path_exists fs (dest @ p))"
    by (auto simp: conflicting_def image_iff)
  also have "\<dots> \<longleftrightarrow> p \<noteq> [] \<and> (\<exists>c. lookup root p = Some (File c)) \<and> path_exists fs (dest @ p)"
    using wf by (auto simp: walk_iff_lookup is_file_iff)
  finally show "p \<in> set (map fst (filter (conflicting dest False fs) (walk root))) \<longleftrightarrow>
     p \<in> {p. p \<noteq> [] \<and> (\<exists>c. lookup root p = Some (File c)) \<and> path_exists fs (dest @ p)}"
    by simp
qed

text \<open>
  C2. A run without \<open>force\<close> that reaches the copy, into a destination where some
  source file's target exists and where no regular file sits at the target of a source
  directory. Then the walk is completed: \<open>run\<close> returns exit code 1, its last line is
  the conflict report for the list \<open>cs\<close> of all source files whose target existed, in
  walk order; every source file whose target did not exist has been copied; and
  everything that existed in the destination is as it was, so no conflicting file has
  been overwritten. (\<open>fs1\<close> is the file system once the destination directory is there.)
\<close>

theorem conflicts_reported_after_full_walk:
  assumes nf: "\<not> arg_force a"
    and mk: "mkdir_p (files st) (arg_dest a) = Inr fs1"
    and rs: "resolve_source w (requested_version a) (requests st) = (Inr src, log)"
    and zu: "truthy (zipball_url src)"
    and sg: "stage w (zipball_url src) = Inr root"
    and wf: "wf_tree root"
    and dirs: "\<forall>e \<in> set (walk root). \<not> is_file (snd e) \<longrightarrow>
                 path_exists fs1 (arg_dest a @ fst e) \<longrightarrow> is_dir fs1 (arg_dest a @ fst e)"
    and some: "\<exists>e \<in> set (walk root). is_file (snd e) \<and> path_exists fs1 (arg_dest a @ fst e)"
    and cs: "cs = map fst (filter (conflicting (arg_dest a) False fs1) (walk root))"
  shows "\<exists>st'. run a w st = (Inr 1, st')
     \<and> last (printed st') = InitFailed (conflict_message cs)
     \<and> set cs = {p. p \<noteq> [] \<and> (\<exists>c. lookup root p = Some (File c))
                      \<and> path_exists fs1 (arg_dest a @ p)}
     \<and> (\<forall>p c. p \<noteq> [] \<longrightarrow> lookup root p = Some (File c) \<longrightarrow>
            \<not> path_exists fs1 (arg_dest a @ p) \<longrightarrow>
            stat (files st') (arg_dest a @ p) = Some (KFile c))
     \<and> (\<forall>x. path_exists fs1 x \<longrightarrow> stat (files st') x = stat fs1 x)"
proof -
  have d: "is_dir fs1 (arg_dest a)"
    using stat_mkdir_p [OF mk, of "arg_dest a"] by (simp add: is_dir_def)
  from copy_tree_conflicts [OF wf d dirs some cs] obtain fs' where
    c: "copy_tree root (arg_dest a) False fs1 = (Inl (RuntimeError (conflict_message cs)), fs')"
    and w: "\<forall>p c. p \<noteq> [] \<longrightarrow> lookup root p = Some (File c) \<longrightarrow>
            \<not> path_exists fs1 (arg_dest a @ p) \<longrightarrow> stat fs' (arg_dest a @ p) = Some (KFile c)"
    and k: "\<forall>x. path_exists fs1 x \<longrightarrow> stat fs' x = stat fs1 x"
    by blast
  define st4 where "st4 = st\<lparr>files := fs', requests := log,
                 downloads := downloads st @ [zipball_url src],
                 printed := printed st @
                   [Repo REPO_URL, Origin (source_type src),
                    Version (py_or (tag_name src) (JStr (requested_version a))),
                    Target (arg_dest a)]\<rparr>"
  have c': "copy_tree root (arg_dest a) (arg_force a) fs1 =
      (Inl (RuntimeError (conflict_message cs)), fs')"
    using c nf by simp
  have r: "run a w st = (Inr 1, st4\<lparr>printed := printed st4 @ [InitFailed (conflict_message cs)]\<rparr>)"
    using run_copy [OF mk rs zu sg c' st4_def] by simp
  have f: "files (st4\<lparr>printed := printed st4 @ [InitFailed (conflict_message cs)]\<rparr>) = fs'"
    by (simp add: st4_def)
  show ?thesis
    using r w k conflicts_set [OF wf, of "arg_dest a" fs1] unfolding cs [symmetric]
    by (intro exI [of _ "st4\<lparr>printed := printed st4 @ [InitFailed (conflict_message cs)]\<rparr>"])
       (simp add: f)
qed

text \<open>
  C5. A run with \<open>force\<close> that reaches the copy, into a destination that does not clash
  in kind with the source: no regular file at the target of a source directory, no
  directory at the target of a source file. Then \<open>run\<close> returns exit code 0 after
  printing the final line, the loop has recorded no conflict, and every source file,
  whether its target existed or not, is at its target with the bytes of the source.
\<close>

theorem force_overwrites:
  assumes fo: "arg_force a"
    and mk: "mkdir_p (files st) (arg_dest a) = Inr fs1"
    and rs: "resolve_source w (requested_version a) (requests st) = (Inr src, log)"
    and zu: "truthy (zipball_url src)"
    and sg: "stage w (zipball_url src) = Inr root"
    and wf: "wf_tree root"
    and dirs: "\<forall>e \<in> set (walk root). \<not> is_file (snd e) \<longrightarrow>
                 path_exists fs1 (arg_dest a @ fst e) \<longrightarrow> is_dir fs1 (arg_dest a @ fst e)"
    and files: "\<forall>e \<in> set (walk root). is_file (snd e) \<longrightarrow> \<not> is_dir fs1 (arg_dest a @ fst e)"
  shows "\<exists>st'. run a w st = (Inr 0, st')
     \<and> last (printed st') = Done
     \<and> copy_entries (arg_dest a) True (walk root) fs1 [] = (Inr [], files st')
     \<and> (\<forall>p c. p \<noteq> [] \<longrightarrow> lookup root p = Some (File c) \<longrightarrow>
            stat (files st') (arg_dest a @ p) = Some (KFile c))"
proof -
  have d: "stat fs1 (arg_dest a) = Some KDir"
    using stat_mkdir_p [OF mk, of "arg_dest a"] by simp
  have cl: "clear (arg_dest a) True fs1 (walk root)"
    using clear_walk [OF wf d dirs, of True] files by simp
  have nc: "filter (conflicting (arg_dest a) True fs1) (walk root) = []"
    by (auto simp: conflicting_def filter_empty_conv)
  from copy_entries_ok [OF coherent_walk [OF wf] cl, of "[]"] obtain fs' where
    r: "copy_entries (arg_dest a) True (walk root) fs1 [] = (Inr [], fs')"
    and w: "\<forall>e \<in> set (walk root). is_file (snd e) \<longrightarrow> \<not> conflicting (arg_dest a) True fs1 e \<longrightarrow>
            stat fs' (arg_dest a @ fst e) = Some (kind_of (snd e))"
    unfolding nc by auto
  have c: "copy_tree root (arg_dest a) (arg_force a) fs1 = (Inr (), fs')"
    using fo by (simp add: copy_tree_def r)
  define st4 where "st4 = st\<lparr>files := fs', requests := log,
                 downloads := downloads st @ [zipball_url src],
                 printed := printed st @
                   [Repo REPO_URL, Origin (source_type src),
                    Version (py_or (tag_name src) (JStr (requested_version a))),
                    Target (arg_dest a)]\<rparr>"
  have rr: "run a w st = (Inr 0, st4\<lparr>printed := printed st4 @ [Done]\<rparr>)"
    using run_copy [OF mk rs zu sg c st4_def] by simp
  have f: "files (st4\<lparr>printed := printed st4 @ [Done]\<rparr>) = fs'" by (simp add: st4_def)
  have 2: "\<forall>p c. p \<noteq> [] \<longrightarrow> lookup root p = Some (File c) \<longrightarrow>
            stat fs' (arg_dest a @ p) = Some (KFile c)"
  proof (intro allI impI)
    fix p c assume "p \<noteq> []" "lookup root p = Some (File c)"
    then have e: "(p, File c) \<in> set (walk root)" using wf by (simp add: walk_iff_lookup)
    moreover have "\<not> conflicting (arg_dest a) True fs1 (p, File c)" by (simp add: conflicting_def)
    ultimately show "stat fs' (arg_dest a @ p) = Some (KFile c)" using w by fastforce
  qed
  show ?thesis
    using rr r 2
    by (intro exI [of _ "st4\<lparr>printed := printed st4 @ [Done]\<rparr>"]) (simp add: f)
qed

section \<open>The command on example inputs\<close>

lemmas run_examples = state_of_def args_latest_def args_v9_def dest_proj_def requested_version_def

theorem missing_zipball_url_stops_before_download_witness:
  "\<not> truthy JNull
   \<and> resolve_source world_tag_without_zipball ''latest'' [] =
       (Inr \<lparr>source_type = ''latest tag'', tag_name = JStr ''v0.9'', zipball_url = JNull\<rparr>,
        [latest_url, latest_tag_url])
   \<and> run (args_latest False) world_tag_without_zipball (state_of fs_fresh) =
       (Inr 1, \<lparr>files = fs_fresh, requests = [latest_url, latest_tag_url], downloads = [],
                printed = [MissingZipball]\<rparr>)"
proof -
  have 1: "mkdir_p (files (state_of fs_fresh)) (arg_dest (args_latest False)) = Inr fs_fresh"
    by (simp add: run_examples fs_fresh_def)
  have a: "api world_tag_without_zipball latest_url = HTTPError 404 (Some ''Not Found'') ''Not Found''"
    and b: "api world_tag_without_zipball latest_tag_url =
       Response (JList (JDict [(''name'', JStr ''v0.9'')] # []))"
    by (simp_all add: world_tag_without_zipball_def example_defs url_defs)
  have 2: "resolve_source world_tag_without_zipball (requested_version (args_latest False))
       (requests (state_of fs_fresh)) =
       (Inr \<lparr>source_type = ''latest tag'', tag_name = JStr ''v0.9'', zipball_url = JNull\<rparr>,
        [latest_url, latest_tag_url])"
    using resolve_latest_tag [OF a b, of "[]"]
    by (simp add: run_examples dict_get_def py_or_def)
  have 3: "\<not> truthy (zipball_url \<lparr>source_type = ''latest tag'', tag_name = JStr ''v0.9'',
       zipball_url = JNull\<rparr>)"
    by simp
  from missing_zipball_url_stops_before_download [OF 1 2 3] 2
  show ?thesis by (simp add: run_examples)
qed

theorem destination_created_before_resolution_witness:
  "run args_v9 world_no_v9 (state_of (Dir [])) =
     (Inr 1, \<lparr>files = Dir [(''home'', Dir [(''proj'', Dir [])])],
              requests = [release_url ''v9'', tags_page_url], downloads = [],
              printed = [ResolveFailed (msg_version_not_found ''v9'')]\<rparr>)
   \<and> is_dir (files (snd (run args_v9 world_no_v9 (state_of (Dir []))))) dest_proj
   \<and> is_dir (Dir [(''home'', Dir [(''proj'', Dir [])])]) [''home'']"
proof -
  have 1: "mkdir_p (files (state_of (Dir []))) (arg_dest args_v9) =
      Inr (Dir [(''home'', Dir [(''proj'', Dir [])])])"
    by (simp add: run_examples)
  have 2: "resolve_source world_no_v9 (requested_version args_v9) (requests (state_of (Dir []))) =
      (Inl (RuntimeError (msg_version_not_found ''v9'')), [release_url ''v9'', tags_page_url])"
    by (simp add: run_examples resolve_source_def api_get_def release_attempt_def read_error_def
        str_nat_404 world_no_v9_facts dict_get_def tag_v09_def)
  have 3: "prefix [''home''] (arg_dest args_v9)" by (simp add: run_examples)
  from destination_created_before_resolution [OF 1, of world_no_v9] 2 3
  show ?thesis by (simp add: run_examples)
qed

theorem destination_not_created_counterexample:
  "run (args_latest False) world_release (state_of fs_home_is_file) =
     (Inl NotADirectoryError, state_of fs_home_is_file)
   \<and> \<not> is_dir (files (state_of fs_home_is_file)) (arg_dest (args_latest False))
   \<and> requests (state_of fs_home_is_file) = []"
  by (simp add: run_def run_examples fs_home_is_file_def Let_def is_dir_def stat_def)

lemmas archive_eval = stage_def download_file_def detect_root_folder_def first_component_def
  extract_member_def arcname_def member_is_dir_def member_data_def source_root_def
  world_zip_def zip_url_v1_def

lemma stage_members_a: "stage (world_zip members_a) zip_url_v1 = Inr source_b"
  by (simp add: archive_eval members_a_def source_b_def example_defs fs_eval)

lemma resolve_world_zip:
  "resolve_source (world_zip m) (requested_version (args_latest f)) (requests (state_of fs)) =
     (Inr \<lparr>source_type = ''latest release'', tag_name = JStr ''v1.0'', zipball_url = zip_url_v1\<rparr>,
      [latest_url])"
proof -
  have "api (world_zip m) latest_url = Response (JDict [(''tag_name'', JStr ''v1.0''),
      (''zipball_url'', JStr ''https://example.org/v1.0.zip'')])"
    by (simp add: world_zip_def example_defs)
  from resolve_latest_release [OF this, of "[]"] show ?thesis
    by (simp add: run_examples dict_get_def py_or_def zip_url_v1_def)
qed

lemma mkdir_dest_proj:
  "mkdir_p (files (state_of fs_conflict)) (arg_dest (args_latest f)) = Inr fs_conflict"
  "mkdir_p (files (state_of fs_clash)) (arg_dest (args_latest f)) = Inr fs_clash"
  "mkdir_p (files (state_of fs_dir_at_file)) (arg_dest (args_latest f)) = Inr fs_dir_at_file"
  by (simp_all add: run_examples fs_conflict_def fs_clash_def fs_dir_at_file_def)

lemma wf_source_b: "wf_tree source_b"
  by (simp add: source_b_def)

lemma walk_source_b:
  "walk source_b =
     [([''README.md''], File ''readme''),
      ([''docs''], Dir [(''guide.md'', File ''guide'')]),
      ([''LICENSE''], File ''MIT''),
      ([''docs'', ''guide.md''], File ''guide'')]"
  by (simp add: source_b_def)

theorem conflicts_reported_after_full_walk_witness:
  "\<not> arg_force (args_latest False)
   \<and> path_exists fs_conflict (dest_proj @ [''README.md''])
   \<and> run (args_latest False) (world_zip members_a) (state_of fs_conflict) =
      (Inr 1,
       \<lparr>files = Dir [(''home'', Dir [(''proj'',
            Dir [(''README.md'', File ''mine''),
                 (''docs'', Dir [(''guide.md'', File ''guide'')]),
                 (''LICENSE'', File ''MIT'')])])],
        requests = [latest_url], downloads = [zip_url_v1],
        printed = info_lines @ [InitFailed (conflict_message [[''README.md'']])]\<rparr>)"
proof -
  have nf: "\<not> arg_force (args_latest False)" by (simp add: args_latest_def)
  have zu: "truthy (zipball_url \<lparr>source_type = ''latest release'', tag_name = JStr ''v1.0'',
      zipball_url = zip_url_v1\<rparr>)"
    by (simp add: zip_url_v1_def)
  have sg: "stage (world_zip members_a) (zipball_url \<lparr>source_type = ''latest release'',
      tag_name = JStr ''v1.0'', zipball_url = zip_url_v1\<rparr>) = Inr source_b"
    using stage_members_a by simp
  have dirs: "\<forall>e \<in> set (walk source_b). \<not> is_file (snd e) \<longrightarrow>
      path_exists fs_conflict (arg_dest (args_latest False) @ fst e) \<longrightarrow>
      is_dir fs_conflict (arg_dest (args_latest False) @ fst e)"
    by (simp add: walk_source_b fs_conflict_def run_examples fs_eval)
  have some: "\<exists>e \<in> set (walk source_b). is_file (snd e)
      \<and> path_exists fs_conflict (arg_dest (args_latest False) @ fst e)"
    by (simp add: walk_source_b fs_conflict_def run_examples fs_eval)
  have cs: "[[''README.md'']] =
      map fst (filter (conflicting (arg_dest (args_latest False)) False fs_conflict) (walk source_b))"
    by (simp add: walk_source_b fs_conflict_def run_examples fs_eval)
  have ex: "path_exists fs_conflict (dest_proj @ [''README.md''])"
    by (simp add: fs_conflict_def run_examples fs_eval)
  have cp: "copy_tree source_b (arg_dest (args_latest False)) (arg_force (args_latest False))
      fs_conflict =
      (Inl (RuntimeError (conflict_message [[''README.md'']])),
       Dir [(''home'', Dir [(''proj'',
            Dir [(''README.md'', File ''mine''),
                 (''docs'', Dir [(''guide.md'', File ''guide'')]),
                 (''LICENSE'', File ''MIT'')])])])"
    by (simp add: walk_source_b fs_conflict_def run_examples fs_eval)
  have r: "run (args_latest False) (world_zip members_a) (state_of fs_conflict) =
      (Inr 1,
       \<lparr>files = Dir [(''home'', Dir [(''proj'',
            Dir [(''README.md'', File ''mine''),
                 (''docs'', Dir [(''guide.md'', File ''guide'')]),
                 (''LICENSE'', File ''MIT'')])])],
        requests = [latest_url], downloads = [zip_url_v1],
        printed = info_lines @ [InitFailed (conflict_message [[''README.md'']])]\<rparr>)"
    using run_copy [OF mkdir_dest_proj(1) resolve_world_zip zu sg cp refl]
    by (simp add: info_lines_def py_or_def run_examples)
  from conflicts_reported_after_full_walk
    [OF nf mkdir_dest_proj(1) resolve_world_zip zu sg wf_source_b dirs some cs]
  obtain st' where "run (args_latest False) (world_zip members_a) (state_of fs_conflict) = (Inr 1, st')"
    by blast
  with nf ex r show ?thesis by simp
qed

lemma source_zip_v1:
  "truthy (zipball_url \<lparr>source_type = ''latest release'', tag_name = JStr ''v1.0'',
      zipball_url = zip_url_v1\<rparr>)"
  "stage (world_zip members_a) (zipball_url \<lparr>source_type = ''latest release'',
      tag_name = JStr ''v1.0'', zipball_url = zip_url_v1\<rparr>) = Inr source_b"
  using stage_members_a by (simp_all add: zip_url_v1_def)

theorem walk_aborted_by_file_at_directory_counterexample:
  "\<not> arg_force (args_latest False)
   \<and> path_exists fs_clash (dest_proj @ [''README.md''])
   \<and> lookup source_b [''LICENSE''] = Some (File ''MIT'')
   \<and> \<not> path_exists fs_clash (dest_proj @ [''LICENSE''])
   \<and> run (args_latest False) (world_zip members_a) (state_of fs_clash) =
      (Inl FileExistsError,
       \<lparr>files = fs_clash, requests = [latest_url], downloads = [zip_url_v1],
        printed = info_lines\<rparr>)"
proof -
  have cp: "copy_tree source_b (arg_dest (args_latest False)) (arg_force (args_latest False))
      fs_clash = (Inl FileExistsError, fs_clash)"
    by (simp add: walk_source_b fs_clash_def run_examples fs_eval)
  have r: "run (args_latest False) (world_zip members_a) (state_of fs_clash) =
      (Inl FileExistsError,
       \<lparr>files = fs_clash, requests = [latest_url], downloads = [zip_url_v1],
        printed = info_lines\<rparr>)"
    using run_copy [OF mkdir_dest_proj(2) resolve_world_zip source_zip_v1 cp refl]
    by (simp add: info_lines_def py_or_def run_examples)
  have "\<not> arg_force (args_latest False)" by (simp add: args_latest_def)
  moreover have "path_exists fs_clash (dest_proj @ [''README.md''])"
    "\<not> path_exists fs_clash (dest_proj @ [''LICENSE''])"
    by (simp_all add: fs_clash_def run_examples fs_eval)
  moreover have "lookup source_b [''LICENSE''] = Some (File ''MIT'')"
    by (simp add: source_b_def)
  ultimately show ?thesis using r by simp
qed

theorem force_overwrites_witness:
  "arg_force (args_latest True)
   \<and> path_exists fs_conflict (dest_proj @ [''README.md''])
   \<and> run (args_latest True) (world_zip members_a) (state_of fs_conflict) =
      (Inr 0,
       \<lparr>files = Dir [(''home'', Dir [(''proj'',
            Dir [(''README.md'', File ''readme''),
                 (''docs'', Dir [(''guide.md'', File ''guide'')]),
                 (''LICENSE'', File ''MIT'')])])],
        requests = [latest_url], downloads = [zip_url_v1],
        printed = info_lines @ [Done]\<rparr>)"
proof -
  have fo: "arg_force (args_latest True)" by (simp add: args_latest_def)
  have dirs: "\<forall>e \<in> set (walk source_b). \<not> is_file (snd e) \<longrightarrow>
      path_exists fs_conflict (arg_dest (args_latest True) @ fst e) \<longrightarrow>
      is_dir fs_conflict (arg_dest (args_latest True) @ fst e)"
    by (simp add: walk_source_b fs_conflict_def run_examples fs_eval)
  have files: "\<forall>e \<in> set (walk source_b). is_file (snd e) \<longrightarrow>
      \<not> is_dir fs_conflict (arg_dest (args_latest True) @ fst e)"
    by (simp add: walk_source_b fs_conflict_def run_examples fs_eval)
  have ex: "path_exists fs_conflict (dest_proj @ [''README.md''])"
    by (simp add: fs_conflict_def run_examples fs_eval)
  have cp: "copy_tree source_b (arg_dest (args_latest True)) (arg_force (args_latest True))
      fs_conflict =
      (Inr (),
       Dir [(''home'', Dir [(''proj'',
            Dir [(''README.md'', File ''readme''),
                 (''docs'', Dir [(''guide.md'', File ''guide'')]),
                 (''LICENSE'', File ''MIT'')])])])"
    by (simp add: walk_source_b fs_conflict_def run_examples fs_eval)
  have r: "run (args_latest True) (world_zip members_a) (state_of fs_conflict) =
      (Inr 0,
       \<lparr>files = Dir [(''home'', Dir [(''proj'',
            Dir [(''README.md'', File ''readme''),
                 (''docs'', Dir [(''guide.md'', File ''guide'')]),
                 (''LICENSE'', File ''MIT'')])])],
        requests = [latest_url], downloads = [zip_url_v1],
        printed = info_lines @ [Done]\<rparr>)"
    using run_copy [OF mkdir_dest_proj(1) resolve_world_zip source_zip_v1 cp refl]
    by (simp add: info_lines_def py_or_def run_examples)
  from force_overwrites
    [OF fo mkdir_dest_proj(1) resolve_world_zip source_zip_v1 wf_source_b dirs files]
  obtain st' where "run (args_latest True) (world_zip members_a) (state_of fs_conflict) = (Inr 0, st')"
    by blast
  with fo ex r show ?thesis by simp
qed

theorem force_with_kind_clash_counterexample:
  "arg_force (args_latest True)
   \<and> path_exists fs_clash (dest_proj @ [''README.md''])
   \<and> run (args_latest True) (world_zip members_a) (state_of fs_clash) =
      (Inl FileExistsError,
       \<lparr>files = Dir [(''home'', Dir [(''proj'',
            Dir [(''README.md'', File ''readme''), (''docs'', File ''notes'')])])],
        requests = [latest_url], downloads = [zip_url_v1], printed = info_lines\<rparr>)
   \<and> path_exists fs_dir_at_file (dest_proj @ [''README.md''])
   \<and> run (args_latest True) (world_zip members_a) (state_of fs_dir_at_file) =
      (Inr 0,
       \<lparr>files = Dir [(''home'', Dir [(''proj'',
            Dir [(''README.md'', Dir [(''README.md'', File ''readme'')]),
                 (''docs'', Dir [(''guide.md'', File ''guide'')]),
                 (''LICENSE'', File ''MIT'')])])],
        requests = [latest_url], downloads = [zip_url_v1],
        printed = info_lines @ [Done]\<rparr>)"
proof -
  have cp1: "copy_tree source_b (arg_dest (args_latest True)) (arg_force (args_latest True))
      fs_clash =
      (Inl FileExistsError,
       Dir [(''home'', Dir [(''proj'',
            Dir [(''README.md'', File ''readme''), (''docs'', File ''notes'')])])])"
    by (simp add: walk_source_b fs_clash_def run_examples fs_eval)
  have r1: "run (args_latest True) (world_zip members_a) (state_of fs_clash) =
      (Inl FileExistsError,
       \<lparr>files = Dir [(''home'', Dir [(''proj'',
            Dir [(''README.md'', File ''readme''), (''docs'', File ''notes'')])])],
        requests = [latest_url], downloads = [zip_url_v1], printed = info_lines\<rparr>)"
    using run_copy [OF mkdir_dest_proj(2) resolve_world_zip source_zip_v1 cp1 refl]
    by (simp add: info_lines_def py_or_def run_examples)
  have cp2: "copy_tree source_b (arg_dest (args_latest True)) (arg_force (args_latest True))
      fs_dir_at_file =
      (Inr (),
       Dir [(''home'', Dir [(''proj'',
            Dir [(''README.md'', Dir [(''README.md'', File ''readme'')]),
                 (''docs'', Dir [(''guide.md'', File ''guide'')]),
                 (''LICENSE'', File ''MIT'')])])])"
    by (simp add: walk_source_b fs_dir_at_file_def run_examples fs_eval)
  have r2: "run (args_latest True) (world_zip members_a) (state_of fs_dir_at_file) =
      (Inr 0,
       \<lparr>files = Dir [(''home'', Dir [(''proj'',
            Dir [(''README.md'', Dir [(''README.md'', File ''readme'')]),
                 (''docs'', Dir [(''guide.md'', File ''guide'')]),
                 (''LICENSE'', File ''MIT'')])])],
        requests = [latest_url], downloads = [zip_url_v1],
        printed = info_lines @ [Done]\<rparr>)"
    using run_copy [OF mkdir_dest_proj(3) resolve_world_zip source_zip_v1 cp2 refl]
    by (simp add: info_lines_def py_or_def run_examples)
  have "arg_force (args_latest True)" by (simp add: args_latest_def)
  moreover have "path_exists fs_clash (dest_proj @ [''README.md''])"
    "path_exists fs_dir_at_file (dest_proj @ [''README.md''])"
    by (simp_all add: fs_clash_def fs_dir_at_file_def run_examples fs_eval)
  ultimately show ?thesis using r1 r2 by simp
qed

section \<open>The conflict report\<close>

lemma mkdir_p_no_RuntimeError: "mkdir_p t p \<noteq> Inl (RuntimeError m)"
  by (induction t p rule: mkdir_p.induct) (auto split: sum.splits)

lemma write_file_no_RuntimeError: "write_file t p c \<noteq> Inl (RuntimeError m)"
  by (induction t p c rule: write_file.induct) (auto split: sum.splits option.splits)

lemma copy_entries_no_RuntimeError:
  "copy_entries dest force L fs cs \<noteq> (Inl (RuntimeError m), fs')"
proof (induction L arbitrary: fs cs)
  case Nil
  then show ?case by simp
next
  case (Cons e L)
  obtain p n where e: "e = (p, n)" by (cases e)
  show ?case
  proof (cases n)
    case (Dir es)
    with Cons e show ?thesis
      using mkdir_p_no_RuntimeError [of fs "dest @ p" m]
      by (cases "mkdir_p fs (dest @ p)") auto
  next
    case (File c)
    show ?thesis
    proof (cases "path_exists fs (dest @ p) \<and> \<not> force")
      case True
      with Cons e File show ?thesis by simp
    next
      case False
      show ?thesis
      proof (cases "mkdir_p fs (butlast (dest @ p))")
        case (Inl err)
        with False e File mkdir_p_no_RuntimeError [of fs "butlast (dest @ p)" m]
        show ?thesis by auto
      next
        case (Inr fs1)
        show ?thesis
        proof (cases "copy2 fs1 (basename p) c (dest @ p)")
          case (Inl err)
          then have "err \<noteq> RuntimeError m"
            using write_file_no_RuntimeError by (auto simp: copy2_def split: if_splits)
          with False e File Inr Inl show ?thesis by auto
        next
          case fs2: (Inr fs2)
          with False e File Inr Cons show ?thesis by auto
        qed
      qed
    qed
  qed
qed

text \<open>
  C7. When the copy fails because of conflicts, that is, when \<open>_copy_tree\<close> raises its
  \<open>RuntimeError\<close>, the walk has ended with a non-empty conflict list \<open>cs\<close> and the
  message is the heading, then one line for each of the first 20 paths of \<open>cs\<close> (at
  most 20 examples), then, exactly when more than 20 conflicts were recorded, the line
  that states the number of the remaining ones, \<open>len(cs) - 20\<close>.
\<close>

theorem conflict_report_shape:
  assumes "copy_tree root dest force fs = (Inl (RuntimeError m), fs')"
  shows "\<exists>cs. copy_entries dest force (walk root) fs [] = (Inr cs, fs') \<and> cs \<noteq> []
     \<and> m = msg_conflict_head
           @ join [CHR 0x0A] (map (\<lambda>item. ''  - '' @ str_path item) (take 20 cs))
           @ (if 20 < length cs
              then msg_more_pre @ str_nat (length cs - 20) @ msg_more_post else [])
     \<and> length (take 20 cs) \<le> 20"
proof -
  obtain r0 fs0 where r0: "copy_entries dest force (walk root) fs [] = (r0, fs0)"
    by (cases "copy_entries dest force (walk root) fs []")
  show ?thesis
  proof (cases r0)
    case (Inl e)
    with r0 assms have "e = RuntimeError m" "fs0 = fs'" by (auto simp: copy_tree_def)
    with r0 Inl copy_entries_no_RuntimeError show ?thesis by blast
  next
    case (Inr cs)
    with r0 assms have ne: "cs \<noteq> []" and fs: "fs0 = fs'" and m: "m = conflict_message cs"
      by (auto simp: copy_tree_def split: if_splits)
    have "conflict_message cs = msg_conflict_head
           @ join [CHR 0x0A] (map (\<lambda>item. ''  - '' @ str_path item) (take 20 cs))
           @ (if 20 < length cs
              then msg_more_pre @ str_nat (length cs - 20) @ msg_more_post else [])"
      by (simp add: conflict_message_def preview_def more_text_def)
    with r0 Inr ne fs m show ?thesis by simp
  qed
qed

lemma str_nat_1: "str_nat (Suc 0) = ''1''"
  by (simp add: str_nat.simps digit_char_def)

theorem conflict_report_shape_witness:
  "copy_tree source_21 dest_proj False fs_21 = (Inl (RuntimeError (conflict_message (map (\<lambda>n. [n]) names_21))), fs_21)
   \<and> length (map (\<lambda>n. [n]) names_21) = 21
   \<and> conflict_message (map (\<lambda>n. [n]) names_21) =
       msg_conflict_head
       @ join [CHR 0x0A] (map (\<lambda>item. ''  - '' @ str_path item) (take 20 (map (\<lambda>n. [n]) names_21)))
       @ msg_more_pre @ ''1'' @ msg_more_post"
proof -
  have c: "copy_tree source_21 dest_proj False fs_21 =
      (Inl (RuntimeError (conflict_message (map (\<lambda>n. [n]) names_21))), fs_21)"
    by (simp add: source_21_def fs_21_def names_21_def dest_proj_def fs_eval)
  have l: "length (map (\<lambda>n. [n]) names_21) = 21" by (simp add: names_21_def)
  from conflict_report_shape [OF c] obtain cs where
    r: "copy_entries dest_proj False (walk source_21) fs_21 [] = (Inr cs, fs_21)"
    and m: "conflict_message (map (\<lambda>n. [n]) names_21) = msg_conflict_head
           @ join [CHR 0x0A] (map (\<lambda>item. ''  - '' @ str_path item) (take 20 cs))
           @ (if 20 < length cs
              then msg_more_pre @ str_nat (length cs - 20) @ msg_more_post else [])"
    by blast
  have "copy_entries dest_proj False (walk source_21) fs_21 [] = (Inr (map (\<lambda>n. [n]) names_21), fs_21)"
    by (simp add: source_21_def fs_21_def names_21_def dest_proj_def fs_eval)
  with r have "cs = map (\<lambda>n. [n]) names_21" by simp
  with m l c show ?thesis by (simp add: str_nat_1)
qed

section \<open>The source root\<close>

text \<open>Root detection: the first name that is not empty and not metadata decides.\<close>

lemma detect_root_folder_first:
  "filter (\<lambda>name. name \<noteq> [] \<and> \<not> prefix ''__MACOSX/'' name) namelist = first # others \<Longrightarrow>
   detect_root_folder namelist = Inr (first_component first)"
  by (simp add: detect_root_folder_def)

lemma detect_root_folder_empty:
  "filter (\<lambda>name. name \<noteq> [] \<and> \<not> prefix ''__MACOSX/'' name) namelist = [] \<Longrightarrow>
   detect_root_folder namelist = Inl (RuntimeError msg_archive_empty)"
  by (simp add: detect_root_folder_def)

lemma detect_root_folder_sample:
  "detect_root_folder [''__MACOSX/x'', ''projectname-abcdef/'', ''projectname-abcdef/a.txt'']
     = Inr ''projectname-abcdef''"
  by (simp add: detect_root_folder_def first_component_def)

text \<open>
  C8. The check after the extraction is \<open>source_root.exists()\<close>, although its message
  says that the source directory was not found. For an archive whose first member is a
  file at the top level, the detected root name is the name of that file; after the
  extraction no directory of that name exists, but the file does, so the check passes.
  The walk of a file yields nothing: \<open>run\<close> copies nothing, prints its final line and
  returns exit code 0, where it should have failed.
\<close>

theorem top_level_file_taken_for_source_root:
  "detect_root_folder (map fst members_flat) = Inr ''README.md''
   \<and> stage (world_zip members_flat) zip_url_v1 = Inr (File ''readme'')
   \<and> run (args_latest False) (world_zip members_flat) (state_of fs_fresh) =
      (Inr 0,
       \<lparr>files = fs_fresh, requests = [latest_url], downloads = [zip_url_v1],
        printed = info_lines @ [Done]\<rparr>)"
proof -
  have d: "detect_root_folder (map fst members_flat) = Inr ''README.md''"
    by (simp add: members_flat_def detect_root_folder_def first_component_def)
  have s: "stage (world_zip members_flat) zip_url_v1 = Inr (File ''readme'')"
    by (simp add: archive_eval members_flat_def example_defs fs_eval)
  have mk: "mkdir_p (files (state_of fs_fresh)) (arg_dest (args_latest False)) = Inr fs_fresh"
    by (simp add: run_examples fs_fresh_def)
  have zu: "truthy (zipball_url \<lparr>source_type = ''latest release'', tag_name = JStr ''v1.0'',
      zipball_url = zip_url_v1\<rparr>)"
    by (simp add: zip_url_v1_def)
  have sg: "stage (world_zip members_flat) (zipball_url \<lparr>source_type = ''latest release'',
      tag_name = JStr ''v1.0'', zipball_url = zip_url_v1\<rparr>) = Inr (File ''readme'')"
    using s by simp
  have cp: "copy_tree (File ''readme'') (arg_dest (args_latest False))
      (arg_force (args_latest False)) fs_fresh = (Inr (), fs_fresh)"
    by (simp add: copy_tree_def)
  have r: "run (args_latest False) (world_zip members_flat) (state_of fs_fresh) =
      (Inr 0,
       \<lparr>files = fs_fresh, requests = [latest_url], downloads = [zip_url_v1],
        printed = info_lines @ [Done]\<rparr>)"
    using run_copy [OF mk resolve_world_zip zu sg cp refl]
    by (simp add: info_lines_def py_or_def run_examples)
  from d s r show ?thesis by simp
qed

end
